theory Spec2Isabelle
  imports Main "HOL-Library.Sublist" "HOL-Library.AList" "HOL-Library.Word"
begin

section \<open>Values of the program\<close>

text \<open>
  A Python \<open>str\<close> is a sequence of Unicode code points. The substitution table of
  \<open>main\<close> holds U+0161, which is no 8-bit character, so a string is modelled as the list
  of its code points; \<open>py\<close> reads an ASCII literal as such a list. Byte contents of
  objects in the storage container are lists of 8-bit words.
\<close>

type_synonym str = "nat list"

type_synonym bytes = "8 word list"

definition py :: "string \<Rightarrow> str" where
  "py s = map of_char s"

text \<open>
  A value held in a cell of the data frame is either text or something else (a number,
  NaN, a timestamp, \<open>None\<close>). The program only ever formats such a value into an
  f-string and leaves it alone in \<open>df.replace\<close>, so \<open>Other\<close> carries the formatting.
\<close>

datatype cell = Str str | Other str

fun py_format :: "cell \<Rightarrow> str" where
  "py_format (Str s) = s"
| "py_format (Other r) = r"

text \<open>\<open>f"{user_email}"\<close> and the value stored in \<open>Created_by\<close>, for an optional parameter.\<close>

fun fmt_param :: "str option \<Rightarrow> str" where
  "fmt_param None = py ''None''"
| "fmt_param (Some e) = e"

fun cell_of_param :: "str option \<Rightarrow> cell" where
  "cell_of_param None = Other (py ''None'')"
| "cell_of_param (Some e) = Str e"

datatype error = KeyError str | DuplicateLabel str | ParseError | LoaderError

record response =
  status_code :: nat
  body :: str

section \<open>The data frame\<close>

text \<open>
  Column-major, as pandas holds it: the number of rows (the index) and the columns in
  header order, each a label with one value per row.
\<close>

record dataframe =
  nrows :: nat
  cols :: "(str \<times> cell list) list"

definition labels :: "dataframe \<Rightarrow> str list" where
  "labels df = map fst (cols df)"

text \<open>\<open>df.drop(columns=[name], errors="ignore")\<close>\<close>

definition drop_column :: "str \<Rightarrow> dataframe \<Rightarrow> dataframe" where
  "drop_column name df = df\<lparr>cols := filter (\<lambda>c. fst c \<noteq> name) (cols df)\<rparr>"

text \<open>\<open>df.rename(columns={old: new}, inplace=True)\<close>\<close>

definition rename_column :: "str \<Rightarrow> str \<Rightarrow> dataframe \<Rightarrow> dataframe" where
  "rename_column old new df =
     df\<lparr>cols := map (\<lambda>c. (if fst c = old then new else fst c, snd c)) (cols df)\<rparr>"

text \<open>\<open>df[name] = values\<close>: an existing column is overwritten in place, a new one is appended.\<close>

definition set_column :: "str \<Rightarrow> cell list \<Rightarrow> dataframe \<Rightarrow> dataframe" where
  "set_column name vs df =
     (if name \<in> set (labels df)
      then df\<lparr>cols := map (\<lambda>c. if fst c = name then (name, vs) else c) (cols df)\<rparr>
      else df\<lparr>cols := cols df @ [(name, vs)]\<rparr>)"

text \<open>\<open>df[name] = scalar\<close> broadcasts the scalar over the index.\<close>

definition set_scalar :: "str \<Rightarrow> cell \<Rightarrow> dataframe \<Rightarrow> dataframe" where
  "set_scalar name v df = set_column name (replicate (nrows df) v) df"

text \<open>
  \<open>df[name]\<close> as a single column: a missing label raises \<open>KeyError\<close>; a label carried by
  several columns does not give a column, and the assignment of line 74 fails on it.
\<close>

definition get_column :: "str \<Rightarrow> dataframe \<Rightarrow> error + cell list" where
  "get_column name df =
     (case filter (\<lambda>c. fst c = name) (cols df) of
        [] \<Rightarrow> Inl (KeyError name)
      | [c] \<Rightarrow> Inr (snd c)
      | _ \<Rightarrow> Inl (DuplicateLabel name))"

text \<open>The records (rows) of a frame, each an association list from label to value.\<close>

definition records :: "dataframe \<Rightarrow> (str \<times> cell) list list" where
  "records df = map (\<lambda>i. map (\<lambda>c. (fst c, snd c ! i)) (cols df)) [0..<nrows df]"

text \<open>The invariant of a frame: every column holds one value per row.\<close>

definition wf_df :: "dataframe \<Rightarrow> bool" where
  "wf_df df = list_all (\<lambda>c. length (snd c) = nrows df) (cols df)"

section \<open>Repair of the encoding artifacts (line 79)\<close>

text \<open>
  \<open>re.sub\<close> for a pattern that holds no regular-expression metacharacter: scanning from
  the left, each match of the pattern is replaced and the scan resumes after it.
\<close>

function re_sub :: "str \<Rightarrow> str \<Rightarrow> str \<Rightarrow> str" where
  "re_sub [] repl s = repl @ concat (map (\<lambda>c. c # repl) s)"
| "re_sub (p # ps) repl [] = []"
| "re_sub (p # ps) repl (c # cs) =
     (if prefix (p # ps) (c # cs) then repl @ re_sub (p # ps) repl (drop (length ps) cs)
      else c # re_sub (p # ps) repl cs)"
  by pat_completeness auto
termination
  by (relation "measure (\<lambda>(p, r, s). length s)") auto

text \<open>The characters that are special in a Python regular expression.\<close>

definition re_metachars :: "nat set" where
  "re_metachars = set (py ''.^$*+?{}[]|()'') \<union> {0x5C}"

text \<open>The two keys of the table: U+00D0 U+00A2 and U+00D0 U+0161.\<close>

definition artifact_T :: str where
  "artifact_T = [0xD0, 0xA2]"

definition artifact_K :: str where
  "artifact_K = [0xD0, 0x161]"

definition replacements :: "(str \<times> str) list" where
  "replacements = [(artifact_T, py ''T''), (artifact_K, py ''K'')]"

definition repair :: "str \<Rightarrow> str" where
  "repair s = foldl (\<lambda>acc kv. re_sub (fst kv) (snd kv) acc) s replacements"

fun repair_cell :: "cell \<Rightarrow> cell" where
  "repair_cell (Str s) = Str (repair s)"
| "repair_cell (Other r) = Other r"

text \<open>\<open>df.replace({...}, regex=True, inplace=True)\<close>\<close>

definition replace_df :: "dataframe \<Rightarrow> dataframe" where
  "replace_df df = df\<lparr>cols := map (\<lambda>c. (fst c, map repair_cell (snd c))) (cols df)\<rparr>"

section \<open>Normalization (lines 64--79)\<close>

definition image_link :: "str \<Rightarrow> str \<Rightarrow> str" where
  "image_link container x = py ''/'' @ container @ py ''/DATASET/'' @ x @ py ''/'' @ x @ py ''.png''"

definition normalize :: "str \<Rightarrow> str option \<Rightarrow> str \<Rightarrow> dataframe \<Rightarrow> error + dataframe" where
  "normalize container user_email current_time df =
     (let df1 = drop_column (py ''Unused_Column'') df;
          df2 = rename_column (py ''OldName'') (py ''DATASET_ID'') df1;
          df3 = set_scalar (py ''Create_date'') (Str current_time) df2;
          df4 = set_scalar (py ''Last_modified'') (Str current_time) df3;
          df5 = set_scalar (py ''Created_by'') (cell_of_param user_email) df4
      in case get_column (py ''DATASET_ID'') df5 of
           Inl e \<Rightarrow> Inl e
         | Inr ids \<Rightarrow>
             Inr (replace_df
                   (set_column (py ''Image_link'')
                      (map (\<lambda>x. Str (image_link container (py_format x))) ids) df5)))"

section \<open>The workbook's image sheets\<close>

text \<open>
  What \<open>load_workbook\<close> and \<open>SheetImageLoader\<close> give for a sheet: its title and its rows
  of cells, each cell with its coordinate and, when an image is anchored there, the
  picture. \<open>image_loader.get\<close> followed by \<open>image.save\<close> yields the PNG bytes of a
  picture or raises. Building the loader itself, \<open>SheetImageLoader(sheet)\<close> on line 98, can
  raise too; \<open>loadable\<close> says that it does not.
\<close>

datatype picture = Decodable bytes | Corrupt

record xcell =
  coordinate :: str
  picture :: "picture option"

record worksheet =
  title :: str
  sheet_rows :: "xcell list list"
  loadable :: bool

definition image_in :: "xcell \<Rightarrow> bool" where
  "image_in c = (picture c \<noteq> None)"

definition excluded_cells :: "str list" where
  "excluded_cells = [py ''A1'', py ''K1'', py ''L1'', py ''M3'', py ''I1'']"

section \<open>The outside world: container, table, and what can fail\<close>

datatype op =
    ToSql dataframe
  | Decode str str
  | Exists str
  | Copy str str
  | Delete str
  | Upload str bytes

datatype event = Done op | Failed op

text \<open>
  The container is an association list in listing order; the table is the list of rows
  appended so far; the trace lists every fallible call of the invocation with its outcome
  (a \<open>Failed\<close> call inside the image loop is the one the handler of line 121 logs).
\<close>

record world =
  blobs :: "(str \<times> bytes) list"
  table :: "(str \<times> cell) list list"
  trace :: "event list"

text \<open>
  The collaborators: the configured container name, the two parsers of the workbook bytes
  (\<open>None\<close> when they raise), and an oracle saying which remote call raises, given how many
  calls the invocation has made and the call itself.
\<close>

record env =
  container_name :: str
  read_excel :: "bytes \<Rightarrow> dataframe option"
  load_workbook :: "bytes \<Rightarrow> worksheet list option"
  fails :: "nat \<Rightarrow> op \<Rightarrow> bool"

text \<open>
  A copy needs its source and a delete its target; the service refuses them otherwise.
  A call that raises leaves the container as it was, and a copy that returns has written
  its destination (an object already there is overwritten): each call is atomic on the one
  object it names.
\<close>

fun possible :: "op \<Rightarrow> world \<Rightarrow> bool" where
  "possible (Copy src dst) w = (map_of (blobs w) src \<noteq> None)"
| "possible (Delete p) w = (map_of (blobs w) p \<noteq> None)"
| "possible _ w = True"

fun effect :: "op \<Rightarrow> world \<Rightarrow> world" where
  "effect (ToSql df) w = w\<lparr>table := table w @ records df\<rparr>"
| "effect (Copy src dst) w =
     (case map_of (blobs w) src of
        None \<Rightarrow> w
      | Some b \<Rightarrow> w\<lparr>blobs := AList.update dst b (blobs w)\<rparr>)"
| "effect (Delete p) w = w\<lparr>blobs := AList.delete p (blobs w)\<rparr>"
| "effect (Upload p b) w = w\<lparr>blobs := AList.update p b (blobs w)\<rparr>"
| "effect (Exists p) w = w"
| "effect (Decode t c) w = w"

definition attempt :: "env \<Rightarrow> op \<Rightarrow> world \<Rightarrow> bool \<times> world" where
  "attempt e x w =
     (if fails e (length (trace w)) x \<or> \<not> possible x w
      then (False, w\<lparr>trace := trace w @ [Failed x]\<rparr>)
      else (True, (effect x w)\<lparr>trace := trace w @ [Done x]\<rparr>))"

section \<open>Object locator (lines 44--54)\<close>

definition list_blobs :: "str \<Rightarrow> (str \<times> bytes) list \<Rightarrow> str list" where
  "list_blobs name_starts_with store = filter (prefix name_starts_with) (map fst store)"

text \<open>
  \<open>user_email and user_email in blob.name\<close>: an absent or empty identifier is falsy and
  matches nothing. The first listed name that matches is downloaded and the loop ends;
  \<open>blob_data\<close> stays \<open>None\<close> when no name matches.
\<close>

fun email_in :: "str option \<Rightarrow> str \<Rightarrow> bool" where
  "email_in None name = False"
| "email_in (Some e) name = (e \<noteq> [] \<and> sublist e name)"

fun first_match :: "str option \<Rightarrow> (str \<times> bytes) list \<Rightarrow> str list \<Rightarrow> bytes option" where
  "first_match user_email store [] = None"
| "first_match user_email store (name # rest) =
     (if email_in user_email name then map_of store name
      else first_match user_email store rest)"

text \<open>
  The loop and the test \<open>if not blob_data\<close> of line 51. The test is the truth value of
  the download handle, which is its length, the size of the object: no handle and the
  handle of an object of zero bytes both count as nothing found (\<open>None\<close>, on which \<open>main\<close>
  answers 404); otherwise the content of the object is what the later stages read.
\<close>

definition locate :: "str option \<Rightarrow> (str \<times> bytes) list \<Rightarrow> str list \<Rightarrow> bytes option" where
  "locate user_email store names =
     (case first_match user_email store names of
        None \<Rightarrow> None
      | Some content \<Rightarrow> if content = [] then None else Some content)"

section \<open>Image archiver and publisher (lines 108--119)\<close>

definition target_path :: "str \<Rightarrow> str" where
  "target_path t = py ''DATASET/'' @ t @ py ''/'' @ t @ py ''.png''"

definition archive_path :: "str \<Rightarrow> str \<Rightarrow> str" where
  "archive_path t current_time =
     py ''DATASET/'' @ t @ py ''/Archive/'' @ t @ py ''_'' @ current_time @ py ''.png''"

definition publish :: "env \<Rightarrow> str \<Rightarrow> str \<Rightarrow> bytes \<Rightarrow> world \<Rightarrow> bool \<times> world" where
  "publish e current_time t png w =
     (let file_path = target_path t in
      case attempt e (Exists file_path) w of
        (False, w1) \<Rightarrow> (False, w1)
      | (True, w1) \<Rightarrow>
          if map_of (blobs w1) file_path \<noteq> None
          then (case attempt e (Copy file_path (archive_path t current_time)) w1 of
                  (False, w2) \<Rightarrow> (False, w2)
                | (True, w2) \<Rightarrow>
                    (case attempt e (Delete file_path) w2 of
                       (False, w3) \<Rightarrow> (False, w3)
                     | (True, w3) \<Rightarrow> attempt e (Upload file_path png) w3))
          else attempt e (Upload file_path png) w1)"

section \<open>Image extractor (lines 97--123)\<close>

text \<open>
  The body of the \<open>try\<close> for one cell: \<open>True\<close> when it ran to the \<open>break\<close>, \<open>False\<close> when
  something raised and the handler went on with \<open>continue\<close>.
\<close>

definition process_cell :: "env \<Rightarrow> str \<Rightarrow> str \<Rightarrow> xcell \<Rightarrow> world \<Rightarrow> bool \<times> world" where
  "process_cell e current_time t c w =
     (case picture c of
        Some (Decodable png) \<Rightarrow>
          publish e current_time t png (w\<lparr>trace := trace w @ [Done (Decode t (coordinate c))]\<rparr>)
      | _ \<Rightarrow> (False, w\<lparr>trace := trace w @ [Failed (Decode t (coordinate c))]\<rparr>))"

fun scan_row :: "env \<Rightarrow> str \<Rightarrow> str \<Rightarrow> xcell list \<Rightarrow> world \<Rightarrow> world" where
  "scan_row e current_time t [] w = w"
| "scan_row e current_time t (c # cs) w =
     (if image_in c \<and> coordinate c \<notin> set excluded_cells
      then (case process_cell e current_time t c w of
              (True, w') \<Rightarrow> w'
            | (False, w') \<Rightarrow> scan_row e current_time t cs w')
      else scan_row e current_time t cs w)"

fun scan_rows :: "env \<Rightarrow> str \<Rightarrow> str \<Rightarrow> xcell list list \<Rightarrow> world \<Rightarrow> world" where
  "scan_rows e current_time t [] w = w"
| "scan_rows e current_time t (r # rs) w =
     scan_rows e current_time t rs (scan_row e current_time t r w)"

text \<open>
  The loop over the sheets. The loader of a sheet is built outside the \<open>try\<close>: when that
  raises, the exception leaves the loop and \<open>main\<close>, after the sheets before it have been
  scanned and published.
\<close>

fun scan_sheets :: "env \<Rightarrow> str \<Rightarrow> worksheet list \<Rightarrow> world \<Rightarrow> error option \<times> world" where
  "scan_sheets e current_time [] w = (None, w)"
| "scan_sheets e current_time (s # ss) w =
     (if loadable s
      then scan_sheets e current_time ss (scan_rows e current_time (title s) (sheet_rows s) w)
      else (Some LoaderError, w))"

definition process_images ::
    "env \<Rightarrow> str \<Rightarrow> worksheet list \<Rightarrow> world \<Rightarrow> error option \<times> world" where
  "process_images e current_time workbook w = scan_sheets e current_time (drop 4 workbook) w"

section \<open>The entry point\<close>

definition not_found :: "str option \<Rightarrow> response" where
  "not_found user_email =
     \<lparr>status_code = 404, body = py ''No file found for user '' @ fmt_param user_email\<rparr>"

definition load_failed :: response where
  "load_failed = \<lparr>status_code = 500, body = py ''Database upload failed.''\<rparr>"

definition success :: response where
  "success = \<lparr>status_code = 200,
     body = py ''{'' @ [0x22] @ py ''msg'' @ [0x22] @ py '': '' @ [0x22] @ py ''success'' @ [0x22] @ py ''}''\<rparr>"

text \<open>
  \<open>main\<close> on the request parameter \<open>email\<close>, the clock reading \<open>current_time\<close> (already
  formatted) and the world it finds; it gives the response, or the exception that leaves
  \<open>main\<close> unhandled, and the world it leaves.
\<close>

definition main :: "env \<Rightarrow> str option \<Rightarrow> str \<Rightarrow> world \<Rightarrow> (error + response) \<times> world" where
  "main e user_email current_time w =
     (case locate user_email (blobs w) (list_blobs (py ''DATASET/Current'') (blobs w)) of
        None \<Rightarrow> (Inr (not_found user_email), w)
      | Some content \<Rightarrow>
          (case read_excel e content of
             None \<Rightarrow> (Inl ParseError, w)
           | Some df \<Rightarrow>
               (case normalize (container_name e) user_email current_time df of
                  Inl err \<Rightarrow> (Inl err, w)
                | Inr df' \<Rightarrow>
                    (case attempt e (ToSql df') w of
                       (False, w1) \<Rightarrow> (Inr load_failed, w1)
                     | (True, w1) \<Rightarrow>
                         (case load_workbook e content of
                            None \<Rightarrow> (Inl ParseError, w1)
                          | Some workbook \<Rightarrow>
                              (case process_images e current_time workbook w1 of
                                 (Some err, w2) \<Rightarrow> (Inl err, w2)
                               | (None, w2) \<Rightarrow> (Inr success, w2)))))))"

text \<open>The world at the start of an invocation: nothing has been called yet.\<close>

definition initial :: "(str \<times> bytes) list \<Rightarrow> (str \<times> cell) list list \<Rightarrow> world" where
  "initial store rows = \<lparr>blobs = store, table = rows, trace = []\<rparr>"

section \<open>Vocabulary for the statements\<close>

fun op_of :: "event \<Rightarrow> op" where
  "op_of (Done x) = x"
| "op_of (Failed x) = x"

text \<open>An event of the image pipeline: anything but the relational append.\<close>

fun image_op :: "op \<Rightarrow> bool" where
  "image_op (ToSql df) = False"
| "image_op _ = True"

definition image_event :: "event \<Rightarrow> bool" where
  "image_event ev = image_op (op_of ev)"

text \<open>\<open>w'\<close> comes from \<open>w\<close> by further calls, each of which satisfies \<open>Q\<close>.\<close>

definition extends :: "(event \<Rightarrow> bool) \<Rightarrow> world \<Rightarrow> world \<Rightarrow> bool" where
  "extends Q w w' = (\<exists>evs. trace w' = trace w @ evs \<and> list_all Q evs)"

text \<open>A text that holds none of the corrupted substrings of the table.\<close>

definition clean :: "str \<Rightarrow> bool" where
  "clean s = (\<not> sublist artifact_T s \<and> \<not> sublist artifact_K s)"

text \<open>
  The values of a frame that are not text (numbers, NaN, timestamps) format to plain text:
  no corrupted substring comes out of formatting them.
\<close>

fun plain_cell :: "cell \<Rightarrow> bool" where
  "plain_cell (Str s) = True"
| "plain_cell (Other r) = clean r"

definition plain_values :: "dataframe \<Rightarrow> bool" where
  "plain_values df = list_all (\<lambda>c. list_all plain_cell (snd c)) (cols df)"

text \<open>The calls that the step from \<open>w\<close> to \<open>w'\<close> has added to the trace.\<close>

definition added :: "world \<Rightarrow> world \<Rightarrow> event list" where
  "added w w' = drop (length (trace w)) (trace w')"






text \<open>The calls a sheet titled \<open>t\<close> may make: its decodes, and calls on its two paths.\<close>

fun touches_op :: "str \<Rightarrow> str \<Rightarrow> op \<Rightarrow> bool" where
  "touches_op t now (ToSql d) = False"
| "touches_op t now (Decode t' c) = (t' = t)"
| "touches_op t now (Exists p) = (p = target_path t)"
| "touches_op t now (Copy src dst) = (src = target_path t \<and> dst = archive_path t now)"
| "touches_op t now (Delete p) = (p = target_path t)"
| "touches_op t now (Upload p b) = (p = target_path t)"

definition touches :: "str \<Rightarrow> str \<Rightarrow> event \<Rightarrow> bool" where
  "touches t now ev = touches_op t now (op_of ev)"



text \<open>The frame after lines 65--71: column dropped, column renamed, metadata injected.\<close>

definition with_metadata :: "str option \<Rightarrow> str \<Rightarrow> dataframe \<Rightarrow> dataframe" where
  "with_metadata user_email current_time df =
     set_scalar (py ''Created_by'') (cell_of_param user_email)
       (set_scalar (py ''Last_modified'') (Str current_time)
         (set_scalar (py ''Create_date'') (Str current_time)
           (rename_column (py ''OldName'') (py ''DATASET_ID'')
             (drop_column (py ''Unused_Column'') df))))"

text \<open>The labels of the columns that normalization drops or writes itself.\<close>

definition managed_labels :: "str list" where
  "managed_labels =
     [py ''Unused_Column'', py ''Create_date'', py ''Last_modified'', py ''Created_by'',
      py ''Image_link'']"



fun failed :: "event \<Rightarrow> bool" where
  "failed (Failed x) = True"
| "failed (Done x) = False"




section \<open>A concrete workbook and container\<close>

text \<open>
  One caller's workbook: a \<open>Sheet1\<close> of two records, and behind the four leading sheets
  an image sheet \<open>Q3\<close> whose canonical image already exists in the container.
\<close>

definition demo_xlsx :: bytes where
  "demo_xlsx = [0x50, 0x4B, 0x03, 0x04]"

definition demo_old_png :: bytes where
  "demo_old_png = [0x89, 0x50, 0x00]"

definition demo_png_a :: bytes where
  "demo_png_a = [0x89, 0x50, 0x01]"

definition demo_png_b :: bytes where
  "demo_png_b = [0x89, 0x50, 0x02]"

definition demo_frame :: dataframe where
  "demo_frame = \<lparr>nrows = 2, cols =
     [(py ''OldName'', [Str (py ''Q3''), Other (py ''7'')]),
      (py ''Unused_Column'', [Other (py ''nan''), Other (py ''nan'')]),
      (py ''Name'', [Str (artifact_T @ py ''om''), Str (py ''Kim'')])]\<rparr>"

definition demo_cell :: "string \<Rightarrow> picture option \<Rightarrow> xcell" where
  "demo_cell c p = \<lparr>coordinate = py c, picture = p\<rparr>"

definition demo_q3 :: worksheet where
  "demo_q3 = \<lparr>title = py ''Q3'', sheet_rows =
     [[demo_cell ''A1'' (Some (Decodable demo_old_png)), demo_cell ''B1'' None],
      [demo_cell ''A2'' None, demo_cell ''B2'' (Some (Decodable demo_png_a)),
       demo_cell ''C2'' (Some (Decodable demo_png_b))],
      [demo_cell ''A3'' (Some Corrupt), demo_cell ''B3'' (Some (Decodable demo_png_b))]],
     loadable = True\<rparr>"

definition demo_workbook :: "worksheet list" where
  "demo_workbook =
     [\<lparr>title = py ''Sheet1'', sheet_rows = [[demo_cell ''A1'' None]], loadable = True\<rparr>,
      \<lparr>title = py ''Notes'', sheet_rows = [[demo_cell ''B2'' (Some (Decodable demo_png_a))]],
       loadable = True\<rparr>,
      \<lparr>title = py ''Legend'', sheet_rows = [], loadable = True\<rparr>,
      \<lparr>title = py ''Index'', sheet_rows = [], loadable = True\<rparr>,
      demo_q3]"

definition demo_env :: "(nat \<Rightarrow> op \<Rightarrow> bool) \<Rightarrow> env" where
  "demo_env f =
     \<lparr>container_name = py ''data'',
      read_excel = (\<lambda>b. if b = demo_xlsx then Some demo_frame else None),
      load_workbook = (\<lambda>b. if b = demo_xlsx then Some demo_workbook else None),
      fails = f\<rparr>"

definition demo_store :: "(str \<times> bytes) list" where
  "demo_store =
     [(py ''DATASET/Current_alice@example.com.xlsx'', demo_xlsx),
      (py ''DATASET/Q3/Q3.png'', demo_old_png)]"

definition demo_now :: str where
  "demo_now = py ''2024-05-01 10:00:00''"

definition alice :: "str option" where
  "alice = Some (py ''alice@example.com'')"

definition never :: "nat \<Rightarrow> op \<Rightarrow> bool" where
  "never n x = False"

text \<open>
  The container as the first publish of that invocation leaves it: the image found at
  the canonical path of \<open>Q3\<close> is in the archive and the image of row 2 is current.
\<close>

definition demo_store_later :: "(str \<times> bytes) list" where
  "demo_store_later =
     [(py ''DATASET/Current_alice@example.com.xlsx'', demo_xlsx),
      (py ''DATASET/Q3/Archive/Q3_2024-05-01 10:00:00.png'', demo_old_png),
      (py ''DATASET/Q3/Q3.png'', demo_png_a)]"



text \<open>The frame that normalization makes of \<open>demo_frame\<close> for that caller.\<close>

definition demo_loaded :: dataframe where
  "demo_loaded = \<lparr>nrows = 2, cols =
     [(py ''DATASET_ID'', [Str (py ''Q3''), Other (py ''7'')]),
      (py ''Name'', [Str (py ''Tom''), Str (py ''Kim'')]),
      (py ''Create_date'', [Str demo_now, Str demo_now]),
      (py ''Last_modified'', [Str demo_now, Str demo_now]),
      (py ''Created_by'', [Str (py ''alice@example.com''), Str (py ''alice@example.com'')]),
      (py ''Image_link'',
         [Str (py ''/data/DATASET/Q3/Q3.png''), Str (py ''/data/DATASET/7/7.png'')])]\<rparr>"

text \<open>An outside world in which the relational append raises and nothing else does.\<close>

fun fail_sql :: "nat \<Rightarrow> op \<Rightarrow> bool" where
  "fail_sql n (ToSql d) = True"
| "fail_sql n _ = False"

section \<open>Traces only grow\<close>

lemma extends_refl: "extends Q w w"
  by (simp add: extends_def)

lemma extends_trans: "extends Q w w1 \<Longrightarrow> extends Q w1 w2 \<Longrightarrow> extends Q w w2"
  unfolding extends_def by fastforce

lemma extends_mono: "extends Q w w' \<Longrightarrow> (\<And>ev. Q ev \<Longrightarrow> R ev) \<Longrightarrow> extends R w w'"
  unfolding extends_def list_all_iff by blast

lemma attempt_trace:
  "attempt e x w = (ok, w') \<Longrightarrow> trace w' = trace w @ [if ok then Done x else Failed x]"
  by (cases x) (auto simp: attempt_def split: if_splits option.splits)

lemma attempt_extends:
  "attempt e x w = (ok, w') \<Longrightarrow> Q (Done x) \<Longrightarrow> Q (Failed x) \<Longrightarrow> extends Q w w'"
  using attempt_trace [of e x w ok w'] by (auto simp: extends_def)

lemma publish_extends:
  assumes "publish e now t png w = (ok, w')"
    and "\<And>x. x \<in> {Exists (target_path t), Copy (target_path t) (archive_path t now),
                    Delete (target_path t), Upload (target_path t) png}
          \<Longrightarrow> Q (Done x) \<and> Q (Failed x)"
  shows "extends Q w w'"
proof -
  note A = attempt_extends [where Q = Q]
  obtain o1 w1 where a1: "attempt e (Exists (target_path t)) w = (o1, w1)" by force
  have e1: "extends Q w w1" using A [OF a1] assms(2) by simp
  show ?thesis
  proof (cases "o1 \<and> map_of (blobs w1) (target_path t) \<noteq> None")
    case False
    show ?thesis
    proof (cases o1)
      case False
      with a1 assms(1) have "w' = w1" by (simp add: publish_def)
      with e1 show ?thesis by simp
    next
      case True
      with \<open>\<not> (o1 \<and> _)\<close> a1 assms(1)
      have "attempt e (Upload (target_path t) png) w1 = (ok, w')"
        by (simp add: publish_def)
      from A [OF this] assms(2) have "extends Q w1 w'" by simp
      with e1 show ?thesis by (rule extends_trans)
    qed
  next
    case True
    obtain o2 w2 where a2: "attempt e (Copy (target_path t) (archive_path t now)) w1 = (o2, w2)"
      by force
    have e2: "extends Q w1 w2" using A [OF a2] assms(2) by simp
    obtain o3 w3 where a3: "attempt e (Delete (target_path t)) w2 = (o3, w3)" by force
    have e3: "extends Q w2 w3" using A [OF a3] assms(2) by simp
    obtain o4 w4 where a4: "attempt e (Upload (target_path t) png) w3 = (o4, w4)" by force
    have e4: "extends Q w3 w4" using A [OF a4] assms(2) by simp
    have "w' = w2 \<or> w' = w3 \<or> w' = w4"
      using assms(1) True a1 a2 a3 a4
      by (cases o2; cases o3) (auto simp: publish_def)
    with e1 e2 e3 e4 show ?thesis
      by (meson extends_trans)
  qed
qed

lemma process_cell_extends:
  assumes "process_cell e now t c w = (ok, w')"
    and "Q (Done (Decode t (coordinate c)))" and "Q (Failed (Decode t (coordinate c)))"
    and "\<And>x. x \<in> {Exists (target_path t), Copy (target_path t) (archive_path t now),
                    Delete (target_path t)} \<union> range (Upload (target_path t))
          \<Longrightarrow> Q (Done x) \<and> Q (Failed x)"
  shows "extends Q w w'"
proof (cases "picture c")
  case None
  with assms(1,3) show ?thesis by (auto simp: process_cell_def extends_def)
next
  case (Some pic)
  show ?thesis
  proof (cases pic)
    case Corrupt
    with Some assms(1,3) show ?thesis by (auto simp: process_cell_def extends_def)
  next
    case (Decodable png)
    let ?w = "w\<lparr>trace := trace w @ [Done (Decode t (coordinate c))]\<rparr>"
    have p: "publish e now t png ?w = (ok, w')"
      using assms(1) Some Decodable by (simp add: process_cell_def)
    have "extends Q w ?w" using assms(2) by (simp add: extends_def)
    moreover have "extends Q ?w w'"
      by (rule publish_extends [OF p]) (use assms(4) in blast)
    ultimately show ?thesis by (rule extends_trans)
  qed
qed

lemma scan_row_extends:
  assumes "\<And>c. c \<in> set cs \<Longrightarrow> image_in c \<Longrightarrow> coordinate c \<notin> set excluded_cells \<Longrightarrow>
             Q (Done (Decode t (coordinate c))) \<and> Q (Failed (Decode t (coordinate c)))"
    and "\<And>x. x \<in> {Exists (target_path t), Copy (target_path t) (archive_path t now),
                    Delete (target_path t)} \<union> range (Upload (target_path t))
          \<Longrightarrow> Q (Done x) \<and> Q (Failed x)"
  shows "extends Q w (scan_row e now t cs w)"
  using assms(1)
proof (induction cs arbitrary: w)
  case Nil
  show ?case by (simp add: extends_refl)
next
  case (Cons c cs)
  show ?case
  proof (cases "image_in c \<and> coordinate c \<notin> set excluded_cells")
    case False
    then show ?thesis using Cons by auto
  next
    case True
    obtain ok w1 where p: "process_cell e now t c w = (ok, w1)" by force
    have e1: "extends Q w w1"
      by (rule process_cell_extends [OF p]) (use Cons.prems True assms(2) in auto)
    show ?thesis
    proof (cases ok)
      case True
      with p \<open>image_in c \<and> _\<close> e1 show ?thesis by simp
    next
      case False
      have "extends Q w1 (scan_row e now t cs w1)"
        by (rule Cons.IH) (use Cons.prems in auto)
      with e1 have "extends Q w (scan_row e now t cs w1)" by (rule extends_trans)
      with p False True show ?thesis by simp
    qed
  qed
qed

lemma scan_rows_extends:
  assumes "\<And>r c. r \<in> set rs \<Longrightarrow> c \<in> set r \<Longrightarrow> image_in c \<Longrightarrow> coordinate c \<notin> set excluded_cells \<Longrightarrow>
             Q (Done (Decode t (coordinate c))) \<and> Q (Failed (Decode t (coordinate c)))"
    and "\<And>x. x \<in> {Exists (target_path t), Copy (target_path t) (archive_path t now),
                    Delete (target_path t)} \<union> range (Upload (target_path t))
          \<Longrightarrow> Q (Done x) \<and> Q (Failed x)"
  shows "extends Q w (scan_rows e now t rs w)"
  using assms(1)
proof (induction rs arbitrary: w)
  case Nil
  show ?case by (simp add: extends_refl)
next
  case (Cons r rs)
  have "extends Q w (scan_row e now t r w)"
    by (rule scan_row_extends) (use Cons.prems assms(2) in auto)
  moreover have "extends Q (scan_row e now t r w) (scan_rows e now t rs (scan_row e now t r w))"
    by (rule Cons.IH) (use Cons.prems in auto)
  ultimately show ?case by (simp add: extends_trans)
qed

text \<open>What the scan of the sheets \<open>ss\<close> can add to the trace.\<close>

lemma scan_sheets_extends:
  assumes "\<And>s. s \<in> set ss \<Longrightarrow>
     (\<forall>r\<in>set (sheet_rows s). \<forall>c\<in>set r. image_in c \<longrightarrow> coordinate c \<notin> set excluded_cells \<longrightarrow>
         Q (Done (Decode (title s) (coordinate c))) \<and> Q (Failed (Decode (title s) (coordinate c)))) \<and>
     (\<forall>x\<in>{Exists (target_path (title s)), Copy (target_path (title s)) (archive_path (title s) now),
                    Delete (target_path (title s))} \<union> range (Upload (target_path (title s))).
           Q (Done x) \<and> Q (Failed x))"
  shows "extends Q w (snd (scan_sheets e now ss w))"
  using assms
proof (induction ss arbitrary: w)
  case Nil
  show ?case by (simp add: extends_refl)
next
  case (Cons s ss)
  let ?w = "scan_rows e now (title s) (sheet_rows s) w"
  have "extends Q w ?w"
    by (rule scan_rows_extends) (use Cons.prems [of s] in auto)
  moreover have "extends Q ?w (snd (scan_sheets e now ss ?w))"
    by (rule Cons.IH) (use Cons.prems in auto)
  ultimately show ?case by (simp add: extends_trans extends_refl)
qed

lemma image_pipeline_events: "extends image_event w (snd (process_images e now wb w))"
  unfolding process_images_def
  by (rule scan_sheets_extends) (auto simp: image_event_def)

lemma first_match_none:
  "(\<And>name. name \<in> set names \<Longrightarrow> \<not> email_in user_email name) \<Longrightarrow>
   first_match user_email store names = None"
  by (induction names) auto

lemma locate_none:
  "(\<And>name. name \<in> set names \<Longrightarrow> \<not> email_in user_email name) \<Longrightarrow>
   locate user_email store names = None"
  by (simp add: locate_def first_match_none)

lemma locate_nonempty: "locate user_email store names = Some content \<Longrightarrow> content \<noteq> []"
  by (auto simp: locate_def split: option.splits if_splits)

text \<open>A matching object of zero bytes is answered like no object at all.\<close>

lemma empty_object_not_found:
  "first_match user_email (blobs w) (list_blobs (py ''DATASET/Current'') (blobs w)) = Some [] \<Longrightarrow>
   main e user_email current_time w = (Inr (not_found user_email), w)"
  by (simp add: main_def locate_def)

section \<open>Object locator: no match, no effects\<close>

text \<open>
  Claim C3. Whenever no object under the prefix \<open>DATASET/Current\<close> holds the identifier as a
  substring of its name, and in particular whenever the identifier is absent or empty (then
  nothing matches, whatever the container holds), \<open>main\<close> answers 404 with the body
  \<open>No file found for user <identifier>\<close> and leaves the world as it found it: the container
  and the table are unchanged and no call has been traced, so neither the relational load
  nor any image operation took place.
\<close>

theorem not_found_no_effects:
  assumes "\<forall>ident. user_email = Some ident \<longrightarrow>
             ident = [] \<or> (\<forall>name\<in>set (map fst (blobs w)).
                            prefix (py ''DATASET/Current'') name \<longrightarrow> \<not> sublist ident name)"
  shows "main e user_email current_time w =
           (Inr \<lparr>status_code = 404, body = py ''No file found for user '' @ fmt_param user_email\<rparr>, w)"
proof -
  have "locate user_email (blobs w) (list_blobs (py ''DATASET/Current'') (blobs w)) = None"
  proof (rule locate_none)
    fix name
    assume "name \<in> set (list_blobs (py ''DATASET/Current'') (blobs w))"
    then show "\<not> email_in user_email name"
      using assms by (cases user_email) (auto simp: list_blobs_def)
  qed
  then show ?thesis by (simp add: main_def not_found_def)
qed

section \<open>Evaluating the concrete workbook\<close>

lemmas demo_defs = demo_env_def demo_store_def demo_now_def alice_def never_def demo_workbook_def
  demo_q3_def demo_cell_def demo_frame_def demo_xlsx_def demo_old_png_def demo_png_a_def demo_png_b_def
  initial_def

theorem not_found_no_effects_witness:
  "main (demo_env never) (Some (py ''bob@example.com'')) demo_now (initial demo_store []) =
     (Inr \<lparr>status_code = 404, body = py ''No file found for user bob@example.com''\<rparr>,
      initial demo_store [])
   \<and> main (demo_env never) (Some []) demo_now (initial demo_store []) =
     (Inr \<lparr>status_code = 404, body = py ''No file found for user ''\<rparr>, initial demo_store [])
   \<and> main (demo_env never) None demo_now (initial demo_store []) =
     (Inr \<lparr>status_code = 404, body = py ''No file found for user None''\<rparr>, initial demo_store [])"
proof -
  have "\<forall>ident. Some (py ''bob@example.com'') = Some ident \<longrightarrow>
             ident = [] \<or> (\<forall>name\<in>set (map fst (blobs (initial demo_store []))).
                            prefix (py ''DATASET/Current'') name \<longrightarrow> \<not> sublist ident name)"
    by (simp add: demo_defs py_def sublist_Cons_right)
  from not_found_no_effects [OF this, of "demo_env never" demo_now]
    not_found_no_effects [of "Some []" "initial demo_store []" "demo_env never" demo_now]
    not_found_no_effects [of None "initial demo_store []" "demo_env never" demo_now]
  show ?thesis by (simp add: py_def)
qed

section \<open>Labels through the normalization steps\<close>

lemma labels_drop_column: "labels (drop_column name df) = filter (\<lambda>l. l \<noteq> name) (labels df)"
  by (simp add: labels_def drop_column_def filter_map comp_def)

lemma labels_rename_column:
  "labels (rename_column old new df) = map (\<lambda>l. if l = old then new else l) (labels df)"
  by (simp add: labels_def rename_column_def comp_def)

lemma labels_set_column_list:
  "labels (set_column name vs df) =
     (if name \<in> set (labels df) then labels df else labels df @ [name])"
proof -
  have "(\<lambda>c. fst (if fst c = name then (name, vs) else c)) = fst"
    by auto
  then show ?thesis
    by (simp add: labels_def set_column_def comp_def)
qed

lemma labels_set_column: "set (labels (set_column name vs df)) = insert name (set (labels df))"
  by (auto simp: labels_set_column_list)

lemma labels_set_scalar: "set (labels (set_scalar name v df)) = insert name (set (labels df))"
  by (simp add: set_scalar_def labels_set_column)

lemma get_column_missing: "name \<notin> set (labels df) \<Longrightarrow> get_column name df = Inl (KeyError name)"
proof -
  assume "name \<notin> set (labels df)"
  then have "filter (\<lambda>c. fst c = name) (cols df) = []"
    by (auto simp: labels_def filter_empty_conv)
  then show ?thesis by (simp add: get_column_def)
qed

lemma normalize_missing_identifier:
  assumes "py ''OldName'' \<notin> set (labels df)" and "py ''DATASET_ID'' \<notin> set (labels df)"
  shows "normalize container user_email current_time df = Inl (KeyError (py ''DATASET_ID''))"
proof -
  let ?df5 = "set_scalar (py ''Created_by'') (cell_of_param user_email)
     (set_scalar (py ''Last_modified'') (Str current_time)
       (set_scalar (py ''Create_date'') (Str current_time)
         (rename_column (py ''OldName'') (py ''DATASET_ID'')
           (drop_column (py ''Unused_Column'') df))))"
  have "py ''DATASET_ID'' \<notin> set (labels (rename_column (py ''OldName'') (py ''DATASET_ID'')
           (drop_column (py ''Unused_Column'') df)))"
    using assms by (auto simp: labels_rename_column labels_drop_column)
  moreover have "py ''DATASET_ID'' \<noteq> py ''Created_by''" "py ''DATASET_ID'' \<noteq> py ''Last_modified''"
    "py ''DATASET_ID'' \<noteq> py ''Create_date''"
    by (simp_all add: py_def)
  ultimately have "py ''DATASET_ID'' \<notin> set (labels ?df5)"
    by (simp add: labels_set_scalar)
  then have "get_column (py ''DATASET_ID'') ?df5 = Inl (KeyError (py ''DATASET_ID''))"
    by (rule get_column_missing)
  then show ?thesis by (simp add: normalize_def Let_def)
qed

section \<open>A sheet without the identifier column\<close>

text \<open>
  Claim C10. When the caller's workbook is found and parsed and its \<open>Sheet1\<close> has neither an
  \<open>OldName\<close> nor a \<open>DATASET_ID\<close> column, the lookup \<open>df["DATASET_ID"]\<close> of line 74 raises
  \<open>KeyError\<close>, which nothing in \<open>main\<close> handles: the invocation ends with that exception
  instead of a response (so with neither the 404 body nor the 500 body), and the world is
  as it was found: nothing was appended to the table and no image call was made.
\<close>

theorem missing_identifier_column_unhandled:
  assumes "locate user_email (blobs w) (list_blobs (py ''DATASET/Current'') (blobs w)) = Some content"
    and "read_excel e content = Some df"
    and "py ''OldName'' \<notin> set (labels df)"
    and "py ''DATASET_ID'' \<notin> set (labels df)"
  shows "main e user_email current_time w = (Inl (KeyError (py ''DATASET_ID'')), w)"
  using assms(1,2) normalize_missing_identifier [OF assms(3,4)]
  by (simp add: main_def)

theorem missing_identifier_column_unhandled_witness:
  "locate alice demo_store (list_blobs (py ''DATASET/Current'') demo_store) = Some demo_xlsx
   \<and> py ''OldName'' \<notin> set [py ''Name'', py ''Unused_Column'']
   \<and> py ''DATASET_ID'' \<notin> set [py ''Name'', py ''Unused_Column'']
   \<and> main (demo_env never\<lparr>read_excel := \<lambda>b. Some \<lparr>nrows = 1, cols =
           [(py ''Name'', [Str (py ''Kim'')]), (py ''Unused_Column'', [Other (py ''nan'')])]\<rparr>\<rparr>)
        alice demo_now (initial demo_store [])
      = (Inl (KeyError (py ''DATASET_ID'')), initial demo_store [])"
proof -
  let ?df = "\<lparr>nrows = 1, cols =
           [(py ''Name'', [Str (py ''Kim'')]), (py ''Unused_Column'', [Other (py ''nan'')])]\<rparr>"
  let ?e = "demo_env never\<lparr>read_excel := \<lambda>b. Some ?df\<rparr>"
  have l: "locate alice (blobs (initial demo_store []))
             (list_blobs (py ''DATASET/Current'') (blobs (initial demo_store []))) = Some demo_xlsx"
    by (simp add: locate_def demo_defs list_blobs_def py_def sublist_Cons_right)
  have r: "read_excel ?e demo_xlsx = Some ?df" by simp
  have n1: "py ''OldName'' \<notin> set (labels ?df)" by (simp add: labels_def py_def)
  have n2: "py ''DATASET_ID'' \<notin> set (labels ?df)" by (simp add: labels_def py_def)
  from missing_identifier_column_unhandled [OF l r n1 n2, of demo_now] l n1 n2
  show ?thesis by (simp add: labels_def initial_def)
qed

section \<open>Relational loader: a failed append ends the invocation\<close>

lemma main_trace_shape:
  assumes "main e user_email current_time (initial store rows) = (r, w')"
  shows "trace w' = [] \<and> table w' = rows \<and> blobs w' = store
       \<or> (\<exists>d. trace w' = [Failed (ToSql d)] \<and> table w' = rows \<and> blobs w' = store)
       \<or> (\<exists>d evs. trace w' = Done (ToSql d) # evs \<and> list_all image_event evs)"
proof (cases "locate user_email store (list_blobs (py ''DATASET/Current'') store)")
  case None
  with assms show ?thesis by (auto simp: main_def initial_def)
next
  case (Some content)
  note loc = this
  show ?thesis
  proof (cases "read_excel e content")
    case None
    with loc assms show ?thesis by (auto simp: main_def initial_def)
  next
    case (Some df)
    note rd = this
    show ?thesis
    proof (cases "normalize (container_name e) user_email current_time df")
      case (Inl err)
      with loc rd assms show ?thesis by (auto simp: main_def initial_def)
    next
      case (Inr d)
      obtain ok w1 where a: "attempt e (ToSql d) (initial store rows) = (ok, w1)" by force
      have t1: "trace w1 = [if ok then Done (ToSql d) else Failed (ToSql d)]"
        using attempt_trace [OF a] by (simp add: initial_def)
      show ?thesis
      proof (cases ok)
        case False
        with a have "table w1 = rows" "blobs w1 = store"
          by (auto simp: attempt_def initial_def split: if_splits)
        moreover have "w' = w1" using assms loc rd Inr a False by (simp add: main_def initial_def)
        ultimately show ?thesis using t1 False by auto
      next
        case True
        show ?thesis
        proof (cases "load_workbook e content")
          case None
          with assms loc rd Inr a True have "w' = w1" by (simp add: main_def initial_def)
          with t1 True show ?thesis by simp
        next
          case (Some wb)
          with assms loc rd Inr a True have "w' = snd (process_images e current_time wb w1)"
            by (auto simp: main_def initial_def split: prod.splits option.splits)
          with image_pipeline_events [of w1 e current_time wb] t1 True
          show ?thesis by (auto simp: extends_def)
        qed
      qed
    qed
  qed
qed

text \<open>
  Claim C2. When the append of the normalized frame raises, \<open>main\<close> answers 500 with the body
  \<open>Database upload failed.\<close>; the only call traced is the failed append, and the container
  and the table are untouched, so no image was extracted, archived or uploaded. Moreover,
  in every invocation, if any call of the image pipeline is made at all, then the first call
  of the invocation is the append and it succeeded: all image calls come after it.
\<close>

theorem load_failure_stops_pipeline:
  "(locate user_email (blobs w) (list_blobs (py ''DATASET/Current'') (blobs w)) = Some content
      \<and> read_excel e content = Some df
      \<and> normalize (container_name e) user_email current_time df = Inr df'
      \<and> fails e (length (trace w)) (ToSql df')
    \<longrightarrow> main e user_email current_time w =
          (Inr \<lparr>status_code = 500, body = py ''Database upload failed.''\<rparr>,
           w\<lparr>trace := trace w @ [Failed (ToSql df')]\<rparr>))
   \<and> (\<forall>ev\<in>set (trace (snd (main e user_email current_time (initial store rows)))).
        image_event ev \<longrightarrow>
          (\<exists>d evs. trace (snd (main e user_email current_time (initial store rows)))
                      = Done (ToSql d) # evs \<and> list_all image_event evs))"
proof (intro conjI impI ballI)
  assume "locate user_email (blobs w) (list_blobs (py ''DATASET/Current'') (blobs w)) = Some content
      \<and> read_excel e content = Some df
      \<and> normalize (container_name e) user_email current_time df = Inr df'
      \<and> fails e (length (trace w)) (ToSql df')"
  then show "main e user_email current_time w =
          (Inr \<lparr>status_code = 500, body = py ''Database upload failed.''\<rparr>,
           w\<lparr>trace := trace w @ [Failed (ToSql df')]\<rparr>)"
    by (simp add: main_def attempt_def load_failed_def)
next
  fix ev
  let ?w' = "snd (main e user_email current_time (initial store rows))"
  assume ev: "ev \<in> set (trace ?w')" "image_event ev"
  have "main e user_email current_time (initial store rows)
          = (fst (main e user_email current_time (initial store rows)), ?w')"
    by simp
  from main_trace_shape [OF this] ev
  show "\<exists>d evs. trace ?w' = Done (ToSql d) # evs \<and> list_all image_event evs"
    by (auto simp: image_event_def)
qed

section \<open>The concrete invocation, evaluated\<close>

lemma demo_located:
  "locate alice demo_store (list_blobs (py ''DATASET/Current'') demo_store) = Some demo_xlsx"
  by code_simp

lemma demo_normalized: "normalize (py ''data'') alice demo_now demo_frame = Inr demo_loaded"
  by code_simp

lemma demo_trace:
  "trace (snd (main (demo_env never) alice demo_now (initial demo_store []))) =
     [Done (ToSql demo_loaded),
      Done (Decode (py ''Q3'') (py ''B2'')),
      Done (Exists (py ''DATASET/Q3/Q3.png'')),
      Done (Copy (py ''DATASET/Q3/Q3.png'') (py ''DATASET/Q3/Archive/Q3_2024-05-01 10:00:00.png'')),
      Done (Delete (py ''DATASET/Q3/Q3.png'')),
      Done (Upload (py ''DATASET/Q3/Q3.png'') demo_png_a),
      Failed (Decode (py ''Q3'') (py ''A3'')),
      Done (Decode (py ''Q3'') (py ''B3'')),
      Done (Exists (py ''DATASET/Q3/Q3.png'')),
      Done (Copy (py ''DATASET/Q3/Q3.png'') (py ''DATASET/Q3/Archive/Q3_2024-05-01 10:00:00.png'')),
      Done (Delete (py ''DATASET/Q3/Q3.png'')),
      Done (Upload (py ''DATASET/Q3/Q3.png'') demo_png_b)]"
  by code_simp

theorem load_failure_stops_pipeline_witness:
  "main (demo_env fail_sql) alice demo_now (initial demo_store []) =
     (Inr \<lparr>status_code = 500, body = py ''Database upload failed.''\<rparr>,
      \<lparr>blobs = demo_store, table = [], trace = [Failed (ToSql demo_loaded)]\<rparr>)
   \<and> Done (Upload (py ''DATASET/Q3/Q3.png'') demo_png_b)
        \<in> set (trace (snd (main (demo_env never) alice demo_now (initial demo_store []))))
   \<and> (\<exists>d evs. trace (snd (main (demo_env never) alice demo_now (initial demo_store [])))
                  = Done (ToSql d) # evs \<and> list_all image_event evs)"
proof -
  have h: "locate alice (blobs (initial demo_store []))
             (list_blobs (py ''DATASET/Current'') (blobs (initial demo_store []))) = Some demo_xlsx
      \<and> read_excel (demo_env fail_sql) demo_xlsx = Some demo_frame
      \<and> normalize (container_name (demo_env fail_sql)) alice demo_now demo_frame = Inr demo_loaded
      \<and> fails (demo_env fail_sql) (length (trace (initial demo_store []))) (ToSql demo_loaded)"
    using demo_located demo_normalized by (simp add: initial_def demo_env_def)
  have first: "main (demo_env fail_sql) alice demo_now (initial demo_store []) =
     (Inr \<lparr>status_code = 500, body = py ''Database upload failed.''\<rparr>,
      \<lparr>blobs = demo_store, table = [], trace = [Failed (ToSql demo_loaded)]\<rparr>)"
    using load_failure_stops_pipeline [of alice "initial demo_store []" demo_xlsx
        "demo_env fail_sql" demo_frame demo_now demo_loaded] h
    by (simp add: initial_def)
  have ev: "Done (Upload (py ''DATASET/Q3/Q3.png'') demo_png_b)
        \<in> set (trace (snd (main (demo_env never) alice demo_now (initial demo_store []))))"
    by (simp add: demo_trace)
  have "image_event (Done (Upload (py ''DATASET/Q3/Q3.png'') demo_png_b))"
    by (simp add: image_event_def)
  with ev load_failure_stops_pipeline [of alice _ _ "demo_env never" _ demo_now _ demo_store "[]"]
  have "\<exists>d evs. trace (snd (main (demo_env never) alice demo_now (initial demo_store [])))
                  = Done (ToSql d) # evs \<and> list_all image_event evs"
    by blast
  with first ev show ?thesis by blast
qed

section \<open>Literal substitution with a two-character key\<close>

lemma re_sub_pair_Nil: "re_sub [a, b] r [] = []"
  by simp

lemma re_sub_pair_single: "re_sub [a, b] r [c] = [c]"
  by simp

lemma re_sub_pair_Cons:
  "re_sub [a, b] r (c # d # s) =
     (if c = a \<and> d = b then r @ re_sub [a, b] r s else c # re_sub [a, b] r (d # s))"
  by auto

lemmas pair_simps = re_sub_pair_Nil re_sub_pair_single re_sub_pair_Cons

lemma re_sub_pair_skip: "c \<noteq> a \<Longrightarrow> re_sub [a, b] r (c # s) = c # re_sub [a, b] r s"
  by (cases s) (simp_all del: re_sub.simps add: pair_simps)

text \<open>Where no match straddles the joint, the substitution works on both parts separately.\<close>

lemma re_sub_pair_append:
  "u = [] \<or> w = [] \<or> last u \<noteq> a \<or> hd w \<noteq> b \<Longrightarrow>
   re_sub [a, b] r (u @ w) = re_sub [a, b] r u @ re_sub [a, b] r w"
proof (induction u rule: induct_list012)
  case 1
  show ?case by (simp del: re_sub.simps add: pair_simps)
next
  case (2 c)
  then show ?case
    by (cases w) (auto simp del: re_sub.simps simp add: pair_simps)
next
  case (3 c d zs)
  have p1: "zs = [] \<or> w = [] \<or> last zs \<noteq> a \<or> hd w \<noteq> b"
    using "3.prems" by (cases "zs = []") auto
  have p2: "d # zs = [] \<or> w = [] \<or> last (d # zs) \<noteq> a \<or> hd w \<noteq> b"
    using "3.prems" by auto
  show ?case
    using "3.IH"(1) [OF p1] "3.IH"(2) [OF p2]
    by (simp del: re_sub.simps add: pair_simps)
qed

lemma re_sub_pair_clean: "\<not> sublist [a, b] s \<Longrightarrow> re_sub [a, b] r s = s"
proof (induction s rule: induct_list012)
  case 1
  show ?case by simp
next
  case (2 c)
  show ?case by simp
next
  case (3 c d zs)
  from "3.prems" have "\<not> (c = a \<and> d = b)" "\<not> sublist [a, b] (d # zs)"
    by (auto simp: sublist_Cons_right)
  with "3.IH"(2) show ?case
    by (auto simp del: re_sub.simps simp add: pair_simps)
qed

text \<open>A stretch of text free of both characters of the key stays as it is, wherever it stands.\<close>

lemma re_sub_pair_literal:
  assumes "l \<noteq> []" "a \<notin> set l" "b \<notin> set l"
  shows "re_sub [a, b] r (u @ l @ w) = re_sub [a, b] r u @ l @ re_sub [a, b] r w"
proof -
  have "hd (l @ w) \<noteq> b" "last l \<noteq> a"
    using assms by (auto simp: hd_append dest: hd_in_set last_in_set)
  then have "re_sub [a, b] r (u @ l @ w) = re_sub [a, b] r u @ re_sub [a, b] r l @ re_sub [a, b] r w"
    by (simp add: re_sub_pair_append del: re_sub.simps)
  moreover have "\<not> sublist [a, b] l"
    using assms(2) set_mono_sublist [of "[a, b]" l] by auto
  ultimately show ?thesis by (simp add: re_sub_pair_clean del: re_sub.simps)
qed

text \<open>The substituted text starts with a character foreign to the replacement only if the text did.\<close>

lemma re_sub_pair_hd:
  "r \<noteq> [] \<Longrightarrow> x \<notin> set r \<Longrightarrow> re_sub [a, b] r s \<noteq> [] \<Longrightarrow> hd (re_sub [a, b] r s) = x \<Longrightarrow>
   s \<noteq> [] \<and> hd s = x"
proof (induction s rule: induct_list012)
  case 1
  then show ?case by simp
next
  case (2 c)
  then show ?case by simp
next
  case (3 c d zs)
  show ?case
  proof (cases "c = a \<and> d = b")
    case True
    with "3.prems"(4) have "hd (r @ re_sub [a, b] r zs) = x"
      by (simp del: re_sub.simps add: pair_simps)
    with "3.prems"(1,2) show ?thesis by (auto simp: hd_append dest: hd_in_set)
  next
    case False
    with "3.prems"(4) show ?thesis by (auto simp del: re_sub.simps simp add: pair_simps)
  qed
qed

lemma sublist_pair_Cons:
  "sublist [a, b] (c # s) \<longleftrightarrow> (c = a \<and> s \<noteq> [] \<and> hd s = b) \<or> sublist [a, b] s"
  by (cases s) (auto simp: sublist_Cons_right)

lemma sublist_pair_skip:
  assumes "r \<noteq> []" "a \<notin> set r" "b \<notin> set r"
  shows "sublist [a, b] (r @ s) \<longleftrightarrow> sublist [a, b] s"
  using assms
proof (induction r)
  case Nil
  then show ?case by simp
next
  case (Cons x r)
  show ?case
  proof (cases "r = []")
    case True
    with Cons.prems show ?thesis by (auto simp: sublist_pair_Cons)
  next
    case False
    with Cons show ?thesis by (auto simp: sublist_pair_Cons hd_append)
  qed
qed

text \<open>
  A replacement that shares no character with a two-character text \<open>[a, b]\<close> creates no
  occurrence of it; and no occurrence of the key itself is left behind.
\<close>

lemma re_sub_pair_creates_none:
  assumes "r \<noteq> []" "a \<notin> set r" "b \<notin> set r"
  shows "sublist [a, b] (re_sub [a', b'] r s) \<Longrightarrow> sublist [a, b] s"
proof (induction s rule: induct_list012)
  case 1
  then show ?case by simp
next
  case (2 c)
  then show ?case by simp
next
  case (3 c d zs)
  show ?case
  proof (cases "c = a' \<and> d = b'")
    case True
    with "3.prems" have "sublist [a, b] (r @ re_sub [a', b'] r zs)"
      by (simp del: re_sub.simps add: pair_simps)
    then have "sublist [a, b] zs"
      using "3.IH"(1) assms by (simp add: sublist_pair_skip del: re_sub.simps)
    then show ?thesis by (simp add: sublist_pair_Cons)
  next
    case False
    with "3.prems" have s: "sublist [a, b] (c # re_sub [a', b'] r (d # zs))"
      by (auto simp del: re_sub.simps simp add: pair_simps)
    show ?thesis
    proof (cases "sublist [a, b] (re_sub [a', b'] r (d # zs))")
      case True
      with "3.IH"(2) show ?thesis by (simp add: sublist_pair_Cons)
    next
      case False
      with s have "c = a" "re_sub [a', b'] r (d # zs) \<noteq> []" "hd (re_sub [a', b'] r (d # zs)) = b"
        by (auto simp: sublist_pair_Cons simp del: re_sub.simps)
      with re_sub_pair_hd [OF assms(1,3), of a' b' "d # zs"]
      have "c = a" "d = b" by (auto simp del: re_sub.simps)
      then show ?thesis by (simp add: sublist_pair_Cons)
    qed
  qed
qed

lemma re_sub_pair_leaves_none:
  assumes "r \<noteq> []" "a \<notin> set r" "b \<notin> set r"
  shows "\<not> sublist [a, b] (re_sub [a, b] r s)"
proof (induction s rule: induct_list012)
  case 1
  show ?case by simp
next
  case (2 c)
  show ?case by (simp add: sublist_pair_Cons)
next
  case (3 c d zs)
  show ?case
  proof (cases "c = a \<and> d = b")
    case True
    then have "re_sub [a, b] r (c # d # zs) = r @ re_sub [a, b] r zs"
      by (simp del: re_sub.simps add: pair_simps)
    with "3.IH"(1) assms show ?thesis by (simp add: sublist_pair_skip del: re_sub.simps)
  next
    case False
    then have eq: "re_sub [a, b] r (c # d # zs) = c # re_sub [a, b] r (d # zs)"
      by (auto simp del: re_sub.simps simp add: pair_simps)
    show ?thesis
    proof
      assume "sublist [a, b] (re_sub [a, b] r (c # d # zs))"
      with eq "3.IH"(2)
      have "c = a" "re_sub [a, b] r (d # zs) \<noteq> []" "hd (re_sub [a, b] r (d # zs)) = b"
        by (auto simp: sublist_pair_Cons simp del: re_sub.simps)
      with re_sub_pair_hd [OF assms(1,3), of a b "d # zs"] False
      show False by (auto simp del: re_sub.simps)
    qed
  qed
qed

section \<open>The repair of one text\<close>

lemma repair_eq:
  "repair s = re_sub [0xD0, 0x161] (py ''K'') (re_sub [0xD0, 0xA2] (py ''T'') s)"
  by (simp add: repair_def replacements_def artifact_T_def artifact_K_def del: re_sub.simps)

lemma repair_artifact_T: "repair (u @ artifact_T @ v) = repair u @ py ''T'' @ repair v"
proof -
  have "re_sub [0xD0, 0xA2] (py ''T'') (u @ [0xD0, 0xA2] @ v)
          = re_sub [0xD0, 0xA2] (py ''T'') u @ py ''T'' @ re_sub [0xD0, 0xA2] (py ''T'') v"
    using re_sub_pair_append [of u "0xD0 # 0xA2 # v" "0xD0" "0xA2" "py ''T''"]
    by (simp add: pair_simps del: re_sub.simps)
  moreover have "re_sub [0xD0, 0x161] (py ''K'') (x @ py ''T'' @ y)
          = re_sub [0xD0, 0x161] (py ''K'') x @ py ''T'' @ re_sub [0xD0, 0x161] (py ''K'') y" for x y
    by (rule re_sub_pair_literal) (simp_all add: py_def)
  ultimately show ?thesis
    by (simp add: repair_eq artifact_T_def del: re_sub.simps)
qed

lemma repair_artifact_K: "repair (u @ artifact_K @ v) = repair u @ py ''K'' @ repair v"
proof -
  have "re_sub [0xD0, 0xA2] (py ''T'') (u @ [0xD0, 0x161] @ v)
          = re_sub [0xD0, 0xA2] (py ''T'') u @ [0xD0, 0x161] @ re_sub [0xD0, 0xA2] (py ''T'') v"
    using re_sub_pair_append [of u "0xD0 # 0x161 # v" "0xD0" "0xA2" "py ''T''"]
    by (simp add: pair_simps re_sub_pair_skip del: re_sub.simps)
  moreover have "re_sub [0xD0, 0x161] (py ''K'') (x @ [0xD0, 0x161] @ y)
          = re_sub [0xD0, 0x161] (py ''K'') x @ py ''K'' @ re_sub [0xD0, 0x161] (py ''K'') y" for x y
    using re_sub_pair_append [of x "0xD0 # 0x161 # y" "0xD0" "0x161" "py ''K''"]
    by (simp add: pair_simps del: re_sub.simps)
  ultimately show ?thesis
    by (simp add: repair_eq artifact_K_def del: re_sub.simps)
qed

lemma repair_clean: "clean s \<Longrightarrow> repair s = s"
  by (simp add: repair_eq clean_def artifact_T_def artifact_K_def re_sub_pair_clean
      del: re_sub.simps)

lemma clean_repair: "clean (repair s)"
proof -
  have "\<not> sublist [0xD0, 0xA2] (re_sub [0xD0, 0xA2] (py ''T'') s)"
    by (rule re_sub_pair_leaves_none) (simp_all add: py_def)
  then have "\<not> sublist [0xD0, 0xA2] (repair s)"
    unfolding repair_eq
    using re_sub_pair_creates_none [of "py ''K''" "0xD0" "0xA2" "0xD0" "0x161"]
    by (auto simp: py_def simp del: re_sub.simps)
  moreover have "\<not> sublist [0xD0, 0x161] (repair s)"
    unfolding repair_eq by (rule re_sub_pair_leaves_none) (simp_all add: py_def)
  ultimately show ?thesis by (simp add: clean_def artifact_T_def artifact_K_def)
qed

text \<open>A stretch of ASCII text between two parts stays, and the parts are repaired separately.\<close>

lemma repair_literal:
  assumes "l \<noteq> []" "0xD0 \<notin> set l" "0xA2 \<notin> set l" "0x161 \<notin> set l"
  shows "repair (u @ l @ w) = repair u @ l @ repair w"
  using assms by (simp add: repair_eq re_sub_pair_literal del: re_sub.simps)

lemma repair_image_link: "repair (image_link c x) = image_link (repair c) (repair x)"
proof -
  have 1: "repair (py ''/'' @ w) = py ''/'' @ repair w" for w
    using repair_literal [of "py ''/''" "[]" w] by (simp add: py_def repair_eq)
  have 2: "repair (u @ py ''/DATASET/'' @ w) = repair u @ py ''/DATASET/'' @ repair w" for u w
    by (rule repair_literal) (simp_all add: py_def)
  have 3: "repair (u @ py ''/'' @ w) = repair u @ py ''/'' @ repair w" for u w
    by (rule repair_literal) (simp_all add: py_def)
  have 4: "repair (u @ py ''.png'') = repair u @ py ''.png''" for u
    using repair_literal [of "py ''.png''" u "[]"] by (simp add: py_def repair_eq)
  show ?thesis
    unfolding image_link_def by (simp only: 1 2 3 4)
qed

section \<open>Columns through the normalization steps\<close>

lemma find_filter_conv: "find P xs = (case filter P xs of [] \<Rightarrow> None | x # _ \<Rightarrow> Some x)"
  by (induction xs) auto

lemma find_append_conv:
  "find P (xs @ ys) = (case find P xs of None \<Rightarrow> find P ys | Some x \<Rightarrow> Some x)"
  by (induction xs) auto

lemma find_map_snd:
  "find (\<lambda>c. fst c = k) (map (\<lambda>c. (fst c, g (snd c))) cs)
     = map_option (\<lambda>c. (fst c, g (snd c))) (find (\<lambda>c. fst c = k) cs)"
  by (induction cs) auto

lemma get_column_find:
  assumes "get_column name df = Inr ids"
  shows "find (\<lambda>c. fst c = name) (cols df) = Some (name, ids)"
proof -
  from assms obtain c where f: "filter (\<lambda>c. fst c = name) (cols df) = [c]" and s: "snd c = ids"
    by (auto simp: get_column_def split: list.splits)
  from f have "c \<in> set (filter (\<lambda>c. fst c = name) (cols df))" by simp
  then have "fst c = name" by simp
  with s have "c = (name, ids)" by (cases c) simp
  with f show ?thesis by (simp add: find_filter_conv)
qed

lemma find_set_column_other:
  assumes "k \<noteq> name"
  shows "find (\<lambda>c. fst c = k) (cols (set_column name vs df)) = find (\<lambda>c. fst c = k) (cols df)"
proof -
  have "find (\<lambda>c. fst c = k) (map (\<lambda>c. if fst c = name then (name, vs) else c) cs)
          = find (\<lambda>c. fst c = k) cs" for cs
    using assms by (induction cs) auto
  moreover have "find (\<lambda>c. fst c = k) (cs @ [(name, vs)]) = find (\<lambda>c. fst c = k) cs" for cs
    using assms by (auto simp: find_append_conv split: option.splits)
  ultimately show ?thesis by (simp add: set_column_def)
qed

lemma find_set_column_same:
  "find (\<lambda>c. fst c = name) (cols (set_column name vs df)) = Some (name, vs)"
proof -
  have "name \<in> set (map fst cs) \<Longrightarrow>
        find (\<lambda>c. fst c = name) (map (\<lambda>c. if fst c = name then (name, vs) else c) cs)
          = Some (name, vs)" for cs
    by (induction cs) auto
  moreover have "name \<notin> set (map fst cs) \<Longrightarrow>
        find (\<lambda>c. fst c = name) (cs @ [(name, vs)]) = Some (name, vs)" for cs
    by (induction cs) auto
  ultimately show ?thesis by (simp add: set_column_def labels_def)
qed

lemma cols_drop_column:
  "list_all (\<lambda>c. P (snd c)) (cols df) \<Longrightarrow> list_all (\<lambda>c. P (snd c)) (cols (drop_column name df))"
  by (auto simp: drop_column_def list_all_iff)

lemma cols_rename_column:
  "list_all (\<lambda>c. P (snd c)) (cols df) \<Longrightarrow> list_all (\<lambda>c. P (snd c)) (cols (rename_column old new df))"
  by (auto simp: rename_column_def list_all_iff)

lemma cols_set_column:
  "P vs \<Longrightarrow> list_all (\<lambda>c. P (snd c)) (cols df) \<Longrightarrow>
   list_all (\<lambda>c. P (snd c)) (cols (set_column name vs df))"
  by (auto simp: set_column_def list_all_iff)

lemma nrows_steps [simp]:
  "nrows (drop_column name df) = nrows df"
  "nrows (rename_column old new df) = nrows df"
  "nrows (set_column name vs df) = nrows df"
  "nrows (set_scalar name v df) = nrows df"
  "nrows (replace_df df) = nrows df"
  by (simp_all add: drop_column_def rename_column_def set_column_def set_scalar_def replace_df_def)

lemma clean_None: "clean (py ''None'')"
  by (simp add: clean_def artifact_T_def artifact_K_def py_def sublist_Cons_right)

text \<open>What a successful normalization leaves in the identifier and link columns.\<close>

lemma normalize_columns:
  assumes "normalize container user_email current_time df = Inr df'"
    and "wf_df df" and "plain_values df"
  shows "\<exists>ids. length ids = nrows df' \<and> list_all plain_cell ids
           \<and> find (\<lambda>c. fst c = py ''DATASET_ID'') (cols df')
               = Some (py ''DATASET_ID'', map repair_cell ids)
           \<and> find (\<lambda>c. fst c = py ''Image_link'') (cols df')
               = Some (py ''Image_link'',
                       map repair_cell (map (\<lambda>x. Str (image_link container (py_format x))) ids))"
proof -
  define P where "P = (\<lambda>vs. length vs = nrows df \<and> list_all plain_cell vs)"
  define df5 where "df5 = set_scalar (py ''Created_by'') (cell_of_param user_email)
     (set_scalar (py ''Last_modified'') (Str current_time)
       (set_scalar (py ''Create_date'') (Str current_time)
         (rename_column (py ''OldName'') (py ''DATASET_ID'')
           (drop_column (py ''Unused_Column'') df))))"
  have P0: "list_all (\<lambda>c. P (snd c)) (cols df)"
    using assms(2,3) by (auto simp: P_def wf_df_def plain_values_def list_all_iff)
  have Ps: "P (replicate (nrows df) (Str current_time))"
    "P (replicate (nrows df) (cell_of_param user_email))"
    using clean_None by (cases user_email; simp add: P_def list_all_iff)+
  have P5: "list_all (\<lambda>c. P (snd c)) (cols df5)"
    unfolding df5_def set_scalar_def
    by (intro cols_set_column cols_rename_column cols_drop_column P0) (simp_all add: Ps)
  have n5: "nrows df5 = nrows df" by (simp add: df5_def)
  obtain ids where g: "get_column (py ''DATASET_ID'') df5 = Inr ids"
    and d: "df' = replace_df (set_column (py ''Image_link'')
                      (map (\<lambda>x. Str (image_link container (py_format x))) ids) df5)"
    using assms(1) unfolding normalize_def Let_def df5_def [symmetric]
    by (auto split: sum.splits)
  from get_column_find [OF g] have f5: "find (\<lambda>c. fst c = py ''DATASET_ID'') (cols df5)
      = Some (py ''DATASET_ID'', ids)" .
  then have "(py ''DATASET_ID'', ids) \<in> set (cols df5)"
    by (auto simp: find_Some_iff)
  with P5 have Pi: "P ids" by (auto simp: list_all_iff)
  have ne: "py ''DATASET_ID'' \<noteq> py ''Image_link''" by (simp add: py_def)
  have "find (\<lambda>c. fst c = py ''DATASET_ID'') (cols df')
               = Some (py ''DATASET_ID'', map repair_cell ids)"
    unfolding d by (simp add: replace_df_def find_map_snd find_set_column_other [OF ne] f5)
  moreover have "find (\<lambda>c. fst c = py ''Image_link'') (cols df')
               = Some (py ''Image_link'',
                       map repair_cell (map (\<lambda>x. Str (image_link container (py_format x))) ids))"
    unfolding d by (simp add: replace_df_def find_map_snd find_set_column_same)
  moreover have "nrows df' = nrows df" unfolding d by (simp add: n5)
  ultimately show ?thesis using Pi unfolding P_def by metis
qed

lemma normalize_cells:
  assumes "normalize container user_email current_time df = Inr df'"
  shows "\<exists>d::dataframe. cols df' = map (\<lambda>c. (fst c, map repair_cell (snd c))) (cols d)"
proof -
  from assms have "\<exists>d. df' = replace_df d"
    by (auto simp: normalize_def Let_def split: sum.splits)
  then obtain d where "df' = replace_df d" ..
  then have "cols df' = map (\<lambda>c. (fst c, map repair_cell (snd c))) (cols d)"
    by (simp add: replace_df_def)
  then show ?thesis ..
qed

lemma map_of_record:
  "map_of (map (\<lambda>c. (fst c, g c)) cs) k = map_option g (find (\<lambda>c. fst c = k) cs)"
  by (induction cs) auto

section \<open>The derived image link\<close>

text \<open>
  Claim C4. Let a frame (one value per row in every column, values other than text
  formatting to plain text) be normalized for a container whose name holds no corrupted
  substring, as every valid container name does. Then every record of the result has a
  \<open>DATASET_ID\<close> value \<open>x\<close> and its \<open>Image_link\<close> is the text
  \<open>/<container>/DATASET/<x>/<x>.png\<close>, with \<open>x\<close> formatted as an f-string does: the link
  is \<open>image_link\<close> of the container name and the record's identifier and depends on
  nothing else.
\<close>

theorem image_link_of_identifier:
  assumes "normalize container user_email current_time df = Inr df'"
    and "wf_df df" and "plain_values df" and "clean container"
  shows "\<forall>r\<in>set (records df'). \<exists>x.
           map_of r (py ''DATASET_ID'') = Some x \<and>
           map_of r (py ''Image_link'') =
             Some (Str (py ''/'' @ container @ py ''/DATASET/'' @ py_format x @ py ''/''
                        @ py_format x @ py ''.png''))"
proof
  fix r
  assume "r \<in> set (records df')"
  then obtain i where i: "i < nrows df'" and r: "r = map (\<lambda>c. (fst c, snd c ! i)) (cols df')"
    by (auto simp: records_def)
  from normalize_columns [OF assms(1-3)] obtain ids where
    len: "length ids = nrows df'" and pl: "list_all plain_cell ids"
    and fid: "find (\<lambda>c. fst c = py ''DATASET_ID'') (cols df')
               = Some (py ''DATASET_ID'', map repair_cell ids)"
    and fl: "find (\<lambda>c. fst c = py ''Image_link'') (cols df')
               = Some (py ''Image_link'',
                       map repair_cell (map (\<lambda>x. Str (image_link container (py_format x))) ids))"
    by blast
  have "plain_cell (ids ! i)" using pl i len by (simp add: list_all_length)
  then have fmt: "py_format (repair_cell (ids ! i)) = repair (py_format (ids ! i))"
    by (cases "ids ! i") (simp_all add: repair_clean)
  have "map_of r (py ''DATASET_ID'') = Some (repair_cell (ids ! i))"
    using i len by (simp add: r map_of_record fid)
  moreover have "map_of r (py ''Image_link'')
      = Some (Str (repair (image_link container (py_format (ids ! i)))))"
    using i len by (simp add: r map_of_record fl)
  moreover have "repair (image_link container (py_format (ids ! i)))
      = image_link container (py_format (repair_cell (ids ! i)))"
    using assms(4) by (simp add: repair_image_link repair_clean fmt)
  ultimately show "\<exists>x.
           map_of r (py ''DATASET_ID'') = Some x \<and>
           map_of r (py ''Image_link'') =
             Some (Str (py ''/'' @ container @ py ''/DATASET/'' @ py_format x @ py ''/''
                        @ py_format x @ py ''.png''))"
    by (simp add: image_link_def)
qed

section \<open>The link on the concrete frame\<close>

theorem image_link_of_identifier_witness:
  "normalize (py ''data'') alice demo_now demo_frame = Inr demo_loaded
   \<and> wf_df demo_frame \<and> plain_values demo_frame \<and> clean (py ''data'')
   \<and> map_of (records demo_loaded ! 0) (py ''DATASET_ID'') = Some (Str (py ''Q3''))
   \<and> map_of (records demo_loaded ! 0) (py ''Image_link'') = Some (Str (py ''/data/DATASET/Q3/Q3.png''))
   \<and> map_of (records demo_loaded ! 1) (py ''DATASET_ID'') = Some (Other (py ''7''))
   \<and> map_of (records demo_loaded ! 1) (py ''Image_link'') = Some (Str (py ''/data/DATASET/7/7.png''))"
proof -
  have w: "wf_df demo_frame" by code_simp
  have p: "plain_values demo_frame" by code_simp
  have c: "clean (py ''data'')" by code_simp
  note T = image_link_of_identifier [OF demo_normalized w p c]
  have r: "records demo_loaded ! 0 \<in> set (records demo_loaded)"
    "records demo_loaded ! 1 \<in> set (records demo_loaded)"
    by (rule nth_mem, simp add: records_def demo_loaded_def)+
  have i0: "map_of (records demo_loaded ! 0) (py ''DATASET_ID'') = Some (Str (py ''Q3''))"
    by code_simp
  have i1: "map_of (records demo_loaded ! 1) (py ''DATASET_ID'') = Some (Other (py ''7''))"
    by code_simp
  from T r(1) i0 have l0: "map_of (records demo_loaded ! 0) (py ''Image_link'')
      = Some (Str (py ''/data/DATASET/Q3/Q3.png''))"
    by (fastforce simp: py_def)
  from T r(2) i1 have l1: "map_of (records demo_loaded ! 1) (py ''Image_link'')
      = Some (Str (py ''/data/DATASET/7/7.png''))"
    by (fastforce simp: py_def)
  from demo_normalized w p c i0 i1 l0 l1 show ?thesis by blast
qed

section \<open>One publish, step by step\<close>

lemma archive_is_not_target: "archive_path t now \<noteq> target_path t"
proof
  assume "archive_path t now = target_path t"
  then have "length (archive_path t now) = length (target_path t)" by simp
  then show False by (simp add: archive_path_def target_path_def py_def)
qed

lemma added_append [simp]: "trace w' = trace w @ evs \<Longrightarrow> added w w' = evs"
  by (simp add: added_def)

lemma publish_success:
  assumes "publish e now t png w = (True, w')"
  shows "(map_of (blobs w) (target_path t) = None
          \<and> trace w' = trace w @ [Done (Exists (target_path t)), Done (Upload (target_path t) png)]
          \<and> blobs w' = AList.update (target_path t) png (blobs w))
       \<or> (\<exists>old. map_of (blobs w) (target_path t) = Some old
          \<and> trace w' = trace w @
               [Done (Exists (target_path t)),
                Done (Copy (target_path t) (archive_path t now)),
                Done (Delete (target_path t)),
                Done (Upload (target_path t) png)]
          \<and> blobs w' = AList.update (target_path t) png
                (AList.delete (target_path t)
                  (AList.update (archive_path t now) old (blobs w))))"
  using assms
  by (auto simp: publish_def attempt_def Let_def split: if_splits)



section \<open>The invocation, case by case\<close>

lemma main_cases [consumes 1, case_names not_found parse_sheet normalize_error load_error parse_book complete]:
  assumes "main e user_email now w = (r, w')"
  obtains "r = Inr (not_found user_email)" "w' = w"
  | "r = Inl ParseError" "w' = w"
  | df err where "r = Inl err" "w' = w"
      "normalize (container_name e) user_email now df = Inl err"
  | df d where "r = Inr load_failed"
      "normalize (container_name e) user_email now df = Inr d"
      "attempt e (ToSql d) w = (False, w')"
  | df d where "r = Inl ParseError"
      "normalize (container_name e) user_email now df = Inr d"
      "attempt e (ToSql d) w = (True, w')"
  | content df d w1 wb where
      "r = (case fst (process_images e now wb w1) of None \<Rightarrow> Inr success | Some err \<Rightarrow> Inl err)"
      "locate user_email (blobs w) (list_blobs (py ''DATASET/Current'') (blobs w)) = Some content"
      "read_excel e content = Some df"
      "normalize (container_name e) user_email now df = Inr d"
      "attempt e (ToSql d) w = (True, w1)"
      "load_workbook e content = Some wb"
      "w' = snd (process_images e now wb w1)"
proof (cases "locate user_email (blobs w) (list_blobs (py ''DATASET/Current'') (blobs w))")
  case None
  with assms have "r = Inr (not_found user_email)" "w' = w" by (simp_all add: main_def)
  then show thesis by (rule that(1))
next
  case loc: (Some content)
  show thesis
  proof (cases "read_excel e content")
    case None
    with loc assms have "r = Inl ParseError" "w' = w" by (simp_all add: main_def)
    then show thesis by (rule that(2))
  next
    case rd: (Some df)
    show thesis
    proof (cases "normalize (container_name e) user_email now df")
      case nz: (Inl err)
      with loc rd assms have "r = Inl err" "w' = w" by (simp_all add: main_def)
      then show thesis using nz by (rule that(3))
    next
      case nz: (Inr d)
      obtain ok w1 where a: "attempt e (ToSql d) w = (ok, w1)" by force
      show thesis
      proof (cases ok)
        case False
        with loc rd nz a assms have "r = Inr load_failed" "w' = w1"
          by (simp_all add: main_def)
        with nz a False show thesis by (auto intro: that(4))
      next
        case True
        show thesis
        proof (cases "load_workbook e content")
          case None
          with loc rd nz a True assms have "r = Inl ParseError" "w' = w1"
            by (simp_all add: main_def)
          with nz a True show thesis by (auto intro: that(5))
        next
          case wb: (Some wb)
          obtain er w2 where p: "process_images e now wb w1 = (er, w2)" by force
          with loc rd nz a True wb assms
          have "r = (case fst (process_images e now wb w1) of
                       None \<Rightarrow> Inr success | Some err \<Rightarrow> Inl err)"
            and "w' = snd (process_images e now wb w1)"
            by (auto simp: main_def split: option.splits)
          with loc rd nz a True wb show thesis by (auto intro: that(6))
        qed
      qed
    qed
  qed
qed

lemma image_pipeline_touches:
  "extends (\<lambda>ev. \<exists>s\<in>set (drop 4 wb). touches (title s) now ev) w
     (snd (process_images e now wb w))"
  unfolding process_images_def
  by (rule scan_sheets_extends) (auto simp: touches_def)

lemma normalize_timestamps:
  assumes "normalize container user_email now df = Inr df'"
  shows "find (\<lambda>c. fst c = py ''Create_date'') (cols df')
           = Some (py ''Create_date'', replicate (nrows df') (Str (repair now)))"
    and "find (\<lambda>c. fst c = py ''Last_modified'') (cols df')
           = Some (py ''Last_modified'', replicate (nrows df') (Str (repair now)))"
proof -
  define df2 where "df2 = rename_column (py ''OldName'') (py ''DATASET_ID'')
           (drop_column (py ''Unused_Column'') df)"
  define df5 where "df5 = set_scalar (py ''Created_by'') (cell_of_param user_email)
     (set_scalar (py ''Last_modified'') (Str now)
       (set_scalar (py ''Create_date'') (Str now) df2))"
  obtain ids where d: "df' = replace_df (set_column (py ''Image_link'')
                      (map (\<lambda>x. Str (image_link container (py_format x))) ids) df5)"
    using assms unfolding normalize_def Let_def df5_def df2_def
    by (auto split: sum.splits)
  have ne: "py ''Create_date'' \<noteq> py ''Last_modified''" "py ''Create_date'' \<noteq> py ''Created_by''"
    "py ''Create_date'' \<noteq> py ''Image_link''" "py ''Last_modified'' \<noteq> py ''Created_by''"
    "py ''Last_modified'' \<noteq> py ''Image_link''"
    by (simp_all add: py_def)
  have n: "nrows df' = nrows df2" by (simp add: d df5_def)
  show "find (\<lambda>c. fst c = py ''Create_date'') (cols df')
           = Some (py ''Create_date'', replicate (nrows df') (Str (repair now)))"
    unfolding d df5_def set_scalar_def
    by (simp add: replace_df_def find_map_snd find_set_column_other ne find_set_column_same)
  show "find (\<lambda>c. fst c = py ''Last_modified'') (cols df')
           = Some (py ''Last_modified'', replicate (nrows df') (Str (repair now)))"
    unfolding d df5_def set_scalar_def
    by (simp add: replace_df_def find_map_snd find_set_column_other ne find_set_column_same)
qed

lemma record_timestamps:
  assumes "normalize container user_email now df = Inr df'" and "r \<in> set (records df')"
  shows "map_of r (py ''Create_date'') = Some (Str (repair now))
       \<and> map_of r (py ''Last_modified'') = Some (Str (repair now))"
proof -
  from assms(2) obtain i where "i < nrows df'" "r = map (\<lambda>c. (fst c, snd c ! i)) (cols df')"
    by (auto simp: records_def)
  then show ?thesis
    by (simp add: map_of_record normalize_timestamps [OF assms(1)])
qed

section \<open>Archive before overwrite\<close>

text \<open>
  Claim C1, amended. A publish that succeeds for a sheet whose target path
  \<open>DATASET/<sheet>/<sheet>.png\<close> holds an object makes exactly four calls in this order:
  the existence check, the copy of the target to
  \<open>DATASET/<sheet>/Archive/<sheet>_<timestamp>.png\<close>, the delete of the target, the upload of
  the new bytes. Afterwards the archive path holds the old content, the target path holds
  the new bytes, and every other path is as before; the container has gained the archive
  path and nothing else, so the archive object is a new object exactly when that path held
  none before, and otherwise the copy overwrites the object already there. When the target
  path held no object, the publish checks and uploads only: the archive path is untouched
  and the target path is the one path gained. In every invocation each copy goes from a
  sheet's target path to its archive path under the timestamp that the records appended
  by the same invocation carry in \<open>Create_date\<close> and \<open>Last_modified\<close>.
\<close>

theorem archive_before_overwrite:
  "(publish e current_time t png w = (True, w') \<longrightarrow>
      (case map_of (blobs w) (target_path t) of
         Some old \<Rightarrow>
           added w w' =
             [Done (Exists (target_path t)),
              Done (Copy (target_path t) (archive_path t current_time)),
              Done (Delete (target_path t)),
              Done (Upload (target_path t) png)]
           \<and> map_of (blobs w') (archive_path t current_time) = Some old
           \<and> dom (map_of (blobs w')) = insert (archive_path t current_time) (dom (map_of (blobs w)))
       | None \<Rightarrow>
           added w w' = [Done (Exists (target_path t)), Done (Upload (target_path t) png)]
           \<and> map_of (blobs w') (archive_path t current_time)
               = map_of (blobs w) (archive_path t current_time)
           \<and> dom (map_of (blobs w')) = insert (target_path t) (dom (map_of (blobs w))))
      \<and> map_of (blobs w') (target_path t) = Some png
      \<and> (\<forall>p. p \<noteq> target_path t \<and> p \<noteq> archive_path t current_time
              \<longrightarrow> map_of (blobs w') p = map_of (blobs w) p))
   \<and> (clean current_time \<longrightarrow>
       (\<forall>ev\<in>set (trace (snd (main e user_email current_time (initial store rows)))).
          (\<forall>src dst. op_of ev = Copy src dst \<longrightarrow>
             (\<exists>s. src = target_path s \<and> dst = archive_path s current_time))
          \<and> (\<forall>d. op_of ev = ToSql d \<longrightarrow>
               (\<forall>r\<in>set (records d).
                  map_of r (py ''Create_date'') = Some (Str current_time)
                  \<and> map_of r (py ''Last_modified'') = Some (Str current_time)))))"
proof (intro conjI impI)
  assume p: "publish e current_time t png w = (True, w')"
  note ne = archive_is_not_target [of t current_time]
  from publish_success [OF p]
  show "(case map_of (blobs w) (target_path t) of
         Some old \<Rightarrow>
           added w w' =
             [Done (Exists (target_path t)),
              Done (Copy (target_path t) (archive_path t current_time)),
              Done (Delete (target_path t)),
              Done (Upload (target_path t) png)]
           \<and> map_of (blobs w') (archive_path t current_time) = Some old
           \<and> dom (map_of (blobs w')) = insert (archive_path t current_time) (dom (map_of (blobs w)))
       | None \<Rightarrow>
           added w w' = [Done (Exists (target_path t)), Done (Upload (target_path t) png)]
           \<and> map_of (blobs w') (archive_path t current_time)
               = map_of (blobs w) (archive_path t current_time)
           \<and> dom (map_of (blobs w')) = insert (target_path t) (dom (map_of (blobs w))))"
    using ne by (auto simp: update_conv' delete_conv' split: if_splits)
  from publish_success [OF p]
  show "map_of (blobs w') (target_path t) = Some png"
    by (auto simp: update_conv')
  from publish_success [OF p]
  show "\<forall>p. p \<noteq> target_path t \<and> p \<noteq> archive_path t current_time
              \<longrightarrow> map_of (blobs w') p = map_of (blobs w) p"
    by (auto simp: update_conv' delete_conv')
next
  assume c: "clean current_time"
  let ?m = "main e user_email current_time (initial store rows)"
  have m: "?m = (fst ?m, snd ?m)" by simp
  show "\<forall>ev\<in>set (trace (snd ?m)).
          (\<forall>src dst. op_of ev = Copy src dst \<longrightarrow>
             (\<exists>s. src = target_path s \<and> dst = archive_path s current_time))
          \<and> (\<forall>d. op_of ev = ToSql d \<longrightarrow>
               (\<forall>r\<in>set (records d).
                  map_of r (py ''Create_date'') = Some (Str current_time)
                  \<and> map_of r (py ''Last_modified'') = Some (Str current_time)))"
  proof
    fix ev
    assume ev: "ev \<in> set (trace (snd ?m))"
    let ?G = "\<lambda>ev. (\<forall>src dst. op_of ev = Copy src dst \<longrightarrow>
             (\<exists>s. src = target_path s \<and> dst = archive_path s current_time))
          \<and> (\<forall>d. op_of ev = ToSql d \<longrightarrow>
               (\<forall>r\<in>set (records d).
                  map_of r (py ''Create_date'') = Some (Str current_time)
                  \<and> map_of r (py ''Last_modified'') = Some (Str current_time)))"
    have sql: "?G (if ok then Done (ToSql d) else Failed (ToSql d))"
      if "normalize (container_name e) user_email current_time df = Inr d" for ok d df
      using record_timestamps [OF that] c by (auto simp: repair_clean)
    from m show "?G ev"
    proof (cases rule: main_cases)
      case not_found
      with ev show ?thesis by (simp add: initial_def)
    next
      case parse_sheet
      with ev show ?thesis by (simp add: initial_def)
    next
      case (normalize_error df err)
      with ev show ?thesis by (simp add: initial_def)
    next
      case (load_error df d)
      from attempt_trace [OF load_error(3)] ev sql [OF load_error(2), of False]
      show ?thesis by (simp add: initial_def)
    next
      case (parse_book df d)
      from attempt_trace [OF parse_book(3)] ev sql [OF parse_book(2), of True]
      show ?thesis by (simp add: initial_def)
    next
      case (complete content df d w1 wb)
      from attempt_trace [OF complete(5)]
      have t1: "trace w1 = [Done (ToSql d)]" by (simp add: initial_def)
      from image_pipeline_touches [of wb current_time w1 e] obtain evs where
        "trace (snd (process_images e current_time wb w1)) = trace w1 @ evs"
        "list_all (\<lambda>ev. \<exists>s\<in>set (drop 4 wb). touches (title s) current_time ev) evs"
        unfolding extends_def by blast
      with ev complete(7) t1 have "ev = Done (ToSql d) \<or> (\<exists>s. touches s current_time ev)"
        by (auto simp: list_all_iff)
      then show ?thesis
      proof
        assume "ev = Done (ToSql d)"
        with sql [OF complete(4), of True] show ?thesis by simp
      next
        assume "\<exists>s. touches s current_time ev"
        then obtain s where "touches_op s current_time (op_of ev)" by (auto simp: touches_def)
        then show ?thesis by (cases "op_of ev") auto
      qed
    qed
  qed
qed

section \<open>Archive before overwrite on the concrete container\<close>

theorem archive_before_overwrite_witness:
  "fst (publish (demo_env never) demo_now (py ''Q3'') demo_png_a (initial demo_store [])) = True
   \<and> map_of demo_store (target_path (py ''Q3'')) = Some demo_old_png
   \<and> added (initial demo_store [])
        (snd (publish (demo_env never) demo_now (py ''Q3'') demo_png_a (initial demo_store []))) =
         [Done (Exists (target_path (py ''Q3''))),
          Done (Copy (target_path (py ''Q3'')) (archive_path (py ''Q3'') demo_now)),
          Done (Delete (target_path (py ''Q3''))),
          Done (Upload (target_path (py ''Q3'')) demo_png_a)]
   \<and> map_of (blobs (snd (publish (demo_env never) demo_now (py ''Q3'') demo_png_a
                          (initial demo_store []))))
        (archive_path (py ''Q3'') demo_now) = Some demo_old_png
   \<and> map_of (blobs (snd (publish (demo_env never) demo_now (py ''Q3'') demo_png_a
                          (initial demo_store []))))
        (target_path (py ''Q3'')) = Some demo_png_a
   \<and> clean demo_now
   \<and> Done (Copy (py ''DATASET/Q3/Q3.png'') (py ''DATASET/Q3/Archive/Q3_2024-05-01 10:00:00.png''))
        \<in> set (trace (snd (main (demo_env never) alice demo_now (initial demo_store []))))
   \<and> (\<exists>s. py ''DATASET/Q3/Q3.png'' = target_path s
          \<and> py ''DATASET/Q3/Archive/Q3_2024-05-01 10:00:00.png'' = archive_path s demo_now)"
proof -
  let ?p = "publish (demo_env never) demo_now (py ''Q3'') demo_png_a (initial demo_store [])"
  have ok: "fst ?p = True" by code_simp
  then have h: "?p = (True, snd ?p)" by (metis prod.collapse)
  have old: "map_of demo_store (target_path (py ''Q3'')) = Some demo_old_png" by code_simp
  have cl: "clean demo_now" by code_simp
  note T = archive_before_overwrite [where e = "demo_env never" and current_time = demo_now
      and t = "py ''Q3''" and png = demo_png_a and w = "initial demo_store []" and w' = "snd ?p"
      and user_email = alice and store = demo_store and rows = "[]"]
  from T h old have first:
    "added (initial demo_store []) (snd ?p) =
         [Done (Exists (target_path (py ''Q3''))),
          Done (Copy (target_path (py ''Q3'')) (archive_path (py ''Q3'') demo_now)),
          Done (Delete (target_path (py ''Q3''))),
          Done (Upload (target_path (py ''Q3'')) demo_png_a)]
     \<and> map_of (blobs (snd ?p)) (archive_path (py ''Q3'') demo_now) = Some demo_old_png
     \<and> map_of (blobs (snd ?p)) (target_path (py ''Q3'')) = Some demo_png_a"
    by (simp add: initial_def)
  have ev: "Done (Copy (py ''DATASET/Q3/Q3.png'') (py ''DATASET/Q3/Archive/Q3_2024-05-01 10:00:00.png''))
        \<in> set (trace (snd (main (demo_env never) alice demo_now (initial demo_store []))))"
    by (simp add: demo_trace)
  from T cl ev have "\<exists>s. py ''DATASET/Q3/Q3.png'' = target_path s
          \<and> py ''DATASET/Q3/Archive/Q3_2024-05-01 10:00:00.png'' = archive_path s demo_now"
    by fastforce
  with ok old first cl ev show ?thesis by blast
qed

text \<open>
  The claim as stated fails when the archive path is already taken: the second publish
  of the same sheet in one invocation finds the target present, succeeds, and leaves the
  container with the very object names it had before; the archive now holds the image of the first publish.
\<close>

theorem archive_before_overwrite_counterexample:
  "blobs (snd (publish (demo_env never) demo_now (py ''Q3'') demo_png_a (initial demo_store [])))
     = demo_store_later
   \<and> map_of demo_store_later (target_path (py ''Q3'')) = Some demo_png_a
   \<and> fst (publish (demo_env never) demo_now (py ''Q3'') demo_png_b (initial demo_store_later []))
   \<and> map fst (blobs (snd (publish (demo_env never) demo_now (py ''Q3'') demo_png_b
                               (initial demo_store_later []))))
       = map fst demo_store_later
   \<and> map_of (blobs (snd (publish (demo_env never) demo_now (py ''Q3'') demo_png_b
                               (initial demo_store_later []))))
        (archive_path (py ''Q3'') demo_now) = Some demo_png_a"
  by code_simp

section \<open>What one cell adds to the trace\<close>


lemma added_self [simp]: "added w w = []"
  by (simp add: added_def)








section \<open>Which cells the extractor takes\<close>





section \<open>The extractor on the concrete workbook\<close>


section \<open>The container after a run is the replay of its trace\<close>









lemma effect_trace [simp]: "trace (effect x w) = trace w"
  by (cases x) (auto split: option.splits)




section \<open>One canonical path per sheet\<close>


section \<open>Rows, uploads and extractions\<close>













section \<open>Rows and the canonical path on the concrete workbook\<close>






section \<open>Every text field is the repair of its source\<close>

lemma repair_cell_case:
  "repair_cell = (\<lambda>x. case x of Str y \<Rightarrow> Str (repair y) | Other z \<Rightarrow> Other z)"
  by (rule ext) (simp split: cell.splits)

lemma normalize_unfold:
  "normalize container user_email now df =
     (case get_column (py ''DATASET_ID'') (with_metadata user_email now df) of
        Inl e \<Rightarrow> Inl e
      | Inr ids \<Rightarrow>
          Inr (replace_df
                (set_column (py ''Image_link'')
                   (map (\<lambda>x. Str (image_link container (py_format x))) ids)
                   (with_metadata user_email now df))))"
  by (simp add: normalize_def with_metadata_def Let_def split: sum.splits)

lemma mem_set_column_other:
  "c \<in> set (cols df) \<Longrightarrow> fst c \<noteq> name \<Longrightarrow> c \<in> set (cols (set_column name vs df))"
  by (auto simp: set_column_def)

lemma mem_with_metadata:
  assumes "c \<in> set (cols df)" and "fst c \<notin> set managed_labels"
  shows "(if fst c = py ''OldName'' then py ''DATASET_ID'' else fst c, snd c)
           \<in> set (cols (with_metadata user_email now df))"
proof -
  let ?l = "if fst c = py ''OldName'' then py ''DATASET_ID'' else fst c"
  have ne: "?l \<noteq> py ''Create_date''" "?l \<noteq> py ''Last_modified''" "?l \<noteq> py ''Created_by''"
    using assms(2) by (auto simp: managed_labels_def py_def)
  from assms have "c \<in> set (cols (drop_column (py ''Unused_Column'') df))"
    by (simp add: drop_column_def managed_labels_def)
  then have "(?l, snd c) \<in> set (cols (rename_column (py ''OldName'') (py ''DATASET_ID'')
      (drop_column (py ''Unused_Column'') df)))"
    by (force simp: rename_column_def)
  then show ?thesis
    unfolding with_metadata_def set_scalar_def
    using ne by (intro mem_set_column_other) simp_all
qed

lemma normalize_source_columns:
  assumes "normalize container user_email now df = Inr df'"
    and "c \<in> set (cols df)" and "fst c \<notin> set managed_labels"
  shows "(if fst c = py ''OldName'' then py ''DATASET_ID'' else fst c, map repair_cell (snd c))
           \<in> set (cols df')"
proof -
  let ?l = "if fst c = py ''OldName'' then py ''DATASET_ID'' else fst c"
  let ?m = "with_metadata user_email now df"
  from assms(1) obtain ids where d: "df' = replace_df (set_column (py ''Image_link'')
                   (map (\<lambda>x. Str (image_link container (py_format x))) ids) ?m)"
    by (auto simp: normalize_unfold split: sum.splits)
  have "?l \<noteq> py ''Image_link''" using assms(3) by (auto simp: managed_labels_def py_def)
  with mem_with_metadata [OF assms(2,3), of user_email now]
  have "(?l, snd c) \<in> set (cols (set_column (py ''Image_link'')
                   (map (\<lambda>x. Str (image_link container (py_format x))) ids) ?m))"
    by (intro mem_set_column_other) simp_all
  then have "(\<lambda>c. (fst c, map repair_cell (snd c))) (?l, snd c)
      \<in> (\<lambda>c. (fst c, map repair_cell (snd c))) ` set (cols (set_column (py ''Image_link'')
                   (map (\<lambda>x. Str (image_link container (py_format x))) ids) ?m))"
    by (rule imageI)
  then show ?thesis unfolding d by (simp add: replace_df_def)
qed

lemma normalize_created_by:
  assumes "normalize container user_email now df = Inr df'"
  shows "find (\<lambda>c. fst c = py ''Created_by'') (cols df')
           = Some (py ''Created_by'',
                   replicate (nrows df') (repair_cell (cell_of_param user_email)))"
proof -
  let ?m = "with_metadata user_email now df"
  from assms obtain ids where d: "df' = replace_df (set_column (py ''Image_link'')
                   (map (\<lambda>x. Str (image_link container (py_format x))) ids) ?m)"
    by (auto simp: normalize_unfold split: sum.splits)
  have ne: "py ''Created_by'' \<noteq> py ''Image_link''" by (simp add: py_def)
  have n: "nrows df' = nrows df" by (simp add: d with_metadata_def)
  show ?thesis
    unfolding d with_metadata_def set_scalar_def
    by (simp add: replace_df_def find_map_snd find_set_column_other [OF ne] find_set_column_same)
qed

lemma normalize_link_source:
  assumes "normalize container user_email now df = Inr df'"
    and "c \<in> set (cols df)" and "fst c = py ''OldName'' \<or> fst c = py ''DATASET_ID''"
  shows "find (\<lambda>c. fst c = py ''Image_link'') (cols df')
           = Some (py ''Image_link'',
                   map (\<lambda>x. Str (repair (image_link container (py_format x)))) (snd c))"
proof -
  let ?m = "with_metadata user_email now df"
  from assms(1) obtain ids where g: "get_column (py ''DATASET_ID'') ?m = Inr ids"
    and d: "df' = replace_df (set_column (py ''Image_link'')
                   (map (\<lambda>x. Str (image_link container (py_format x))) ids) ?m)"
    by (auto simp: normalize_unfold split: sum.splits)
  have "fst c \<notin> set managed_labels" using assms(3) by (auto simp: managed_labels_def py_def)
  from mem_with_metadata [OF assms(2) this, of user_email now] assms(3)
  have m: "(py ''DATASET_ID'', snd c) \<in> set (cols ?m)" by (auto simp: py_def split: if_splits)
  from g obtain k where f: "filter (\<lambda>c. fst c = py ''DATASET_ID'') (cols ?m) = [k]"
    and k: "snd k = ids"
    by (auto simp: get_column_def split: list.splits)
  from m have "(py ''DATASET_ID'', snd c) \<in> set (filter (\<lambda>c. fst c = py ''DATASET_ID'') (cols ?m))"
    by simp
  with f k have "snd c = ids" by auto
  then show ?thesis
    unfolding d by (simp add: replace_df_def find_map_snd find_set_column_same comp_def)
qed

lemma labels_replace_df: "labels (replace_df df) = labels df"
  by (simp add: labels_def replace_df_def comp_def)

lemma normalize_labels:
  assumes "normalize container user_email now df = Inr df'"
  shows "set (labels df')
           = (\<lambda>l. if l = py ''OldName'' then py ''DATASET_ID'' else l)
               ` (set (labels df) - {py ''Unused_Column''})
             \<union> {py ''Create_date'', py ''Last_modified'', py ''Created_by'', py ''Image_link''}"
proof -
  from assms obtain ids where d: "df' = replace_df (set_column (py ''Image_link'')
                   (map (\<lambda>x. Str (image_link container (py_format x))) ids)
                   (with_metadata user_email now df))"
    by (auto simp: normalize_unfold split: sum.splits)
  have "set (filter (\<lambda>l. l \<noteq> py ''Unused_Column'') (labels df))
          = set (labels df) - {py ''Unused_Column''}"
    by auto
  then show ?thesis
    unfolding d with_metadata_def
    by (simp add: labels_replace_df labels_set_column labels_set_scalar labels_rename_column
        labels_drop_column insert_commute del: set_filter)
qed

section \<open>The substitution table\<close>

text \<open>
  Claim C8. The keys of the table hold no regular-expression metacharacter, so that the
  substitution with \<open>regex=True\<close> replaces literal substrings. In a text every occurrence of
  the first key becomes \<open>T\<close> and every occurrence of the second becomes \<open>K\<close>, the text
  around an occurrence being repaired on its own; the repaired text holds no occurrence of
  either key; and a text without a corrupted substring is left as it is. Normalization
  applies this to every text field of every record: each column of the sheet that is kept
  appears in the normalized frame (under its label, \<open>OldName\<close> renamed) with every text
  value repaired and every other value untouched; the injected timestamp, caller and link
  fields are the repaired texts of what lines 69--76 wrote; the frame has no other labels
  than those; the number of records is unchanged; and no text field of the normalized
  frame holds a corrupted substring.
\<close>

theorem repair_replaces_literally:
  "(\<forall>k\<in>set (map fst replacements). set k \<inter> re_metachars = {})
   \<and> map snd replacements = [py ''T'', py ''K'']
   \<and> repair (u @ artifact_T @ v) = repair u @ py ''T'' @ repair v
   \<and> repair (u @ artifact_K @ v) = repair u @ py ''K'' @ repair v
   \<and> clean (repair s)
   \<and> (clean t \<longrightarrow> repair t = t)
   \<and> (normalize container user_email current_time df = Inr df' \<longrightarrow>
        nrows df' = nrows df
        \<and> set (labels df')
            = (\<lambda>l. if l = py ''OldName'' then py ''DATASET_ID'' else l)
                ` (set (labels df) - {py ''Unused_Column''})
              \<union> {py ''Create_date'', py ''Last_modified'', py ''Created_by'', py ''Image_link''}
        \<and> (\<forall>c\<in>set (cols df). fst c \<notin> set managed_labels \<longrightarrow>
              (if fst c = py ''OldName'' then py ''DATASET_ID'' else fst c,
               map (\<lambda>x. case x of Str y \<Rightarrow> Str (repair y) | Other z \<Rightarrow> Other z) (snd c))
                \<in> set (cols df'))
        \<and> find (\<lambda>c. fst c = py ''Create_date'') (cols df')
            = Some (py ''Create_date'', replicate (nrows df) (Str (repair current_time)))
        \<and> find (\<lambda>c. fst c = py ''Last_modified'') (cols df')
            = Some (py ''Last_modified'', replicate (nrows df) (Str (repair current_time)))
        \<and> find (\<lambda>c. fst c = py ''Created_by'') (cols df')
            = Some (py ''Created_by'',
                    replicate (nrows df)
                      (case user_email of None \<Rightarrow> Other (py ''None'')
                                        | Some ident \<Rightarrow> Str (repair ident)))
        \<and> (\<forall>c\<in>set (cols df). fst c = py ''OldName'' \<or> fst c = py ''DATASET_ID'' \<longrightarrow>
              find (\<lambda>c. fst c = py ''Image_link'') (cols df')
                = Some (py ''Image_link'',
                        map (\<lambda>x. Str (repair (image_link container (py_format x)))) (snd c)))
        \<and> (\<forall>c\<in>set (cols df'). \<forall>y. Str y \<in> set (snd c) \<longrightarrow> clean y))"
proof (intro conjI impI ballI allI)
  fix k
  assume "k \<in> set (map fst replacements)"
  then show "set k \<inter> re_metachars = {}"
    by (auto simp: replacements_def artifact_T_def artifact_K_def re_metachars_def py_def)
next
  show "map snd replacements = [py ''T'', py ''K'']" by (simp add: replacements_def)
next
  show "repair (u @ artifact_T @ v) = repair u @ py ''T'' @ repair v" by (rule repair_artifact_T)
next
  show "repair (u @ artifact_K @ v) = repair u @ py ''K'' @ repair v" by (rule repair_artifact_K)
next
  show "clean (repair s)" by (rule clean_repair)
next
  assume "clean t"
  then show "repair t = t" by (rule repair_clean)
next
  assume n: "normalize container user_email current_time df = Inr df'"
  then show nr: "nrows df' = nrows df"
    by (auto simp: normalize_unfold with_metadata_def split: sum.splits)
  from n show "set (labels df')
            = (\<lambda>l. if l = py ''OldName'' then py ''DATASET_ID'' else l)
                ` (set (labels df) - {py ''Unused_Column''})
              \<union> {py ''Create_date'', py ''Last_modified'', py ''Created_by'', py ''Image_link''}"
    by (rule normalize_labels)
  from normalize_timestamps [OF n] nr
  show "find (\<lambda>c. fst c = py ''Create_date'') (cols df')
            = Some (py ''Create_date'', replicate (nrows df) (Str (repair current_time)))"
    and "find (\<lambda>c. fst c = py ''Last_modified'') (cols df')
            = Some (py ''Last_modified'', replicate (nrows df) (Str (repair current_time)))"
    by simp_all
  from normalize_created_by [OF n] nr
  show "find (\<lambda>c. fst c = py ''Created_by'') (cols df')
            = Some (py ''Created_by'',
                    replicate (nrows df)
                      (case user_email of None \<Rightarrow> Other (py ''None'')
                                        | Some ident \<Rightarrow> Str (repair ident)))"
    by (cases user_email) simp_all
next
  fix c
  assume "normalize container user_email current_time df = Inr df'"
    and "c \<in> set (cols df)" and "fst c \<notin> set managed_labels"
  from normalize_source_columns [OF this]
  show "(if fst c = py ''OldName'' then py ''DATASET_ID'' else fst c,
               map (\<lambda>x. case x of Str y \<Rightarrow> Str (repair y) | Other z \<Rightarrow> Other z) (snd c))
                \<in> set (cols df')"
    by (simp add: repair_cell_case)
next
  fix c
  assume "normalize container user_email current_time df = Inr df'"
    and "c \<in> set (cols df)" and "fst c = py ''OldName'' \<or> fst c = py ''DATASET_ID''"
  then show "find (\<lambda>c. fst c = py ''Image_link'') (cols df')
                = Some (py ''Image_link'',
                        map (\<lambda>x. Str (repair (image_link container (py_format x)))) (snd c))"
    by (rule normalize_link_source)
next
  fix c y
  assume n: "normalize container user_email current_time df = Inr df'"
    and c: "c \<in> set (cols df')" and y: "Str y \<in> set (snd c)"
  from normalize_cells [OF n] obtain d :: dataframe where
    "cols df' = map (\<lambda>c. (fst c, map repair_cell (snd c))) (cols d)" ..
  with c y obtain x where "Str y = repair_cell x" by auto
  then show "clean y" by (cases x) (auto simp: clean_repair)
qed

theorem repair_replaces_literally_witness:
  "repair (py ''A'' @ artifact_T @ py ''om'') = py ''ATom''
   \<and> repair (py ''O'' @ artifact_K @ py ''im'') = py ''OKim''
   \<and> clean (py ''Kim'') \<and> repair (py ''Kim'') = py ''Kim''
   \<and> normalize (py ''data'') alice demo_now demo_frame = Inr demo_loaded
   \<and> (py ''Name'', [Str (artifact_T @ py ''om''), Str (py ''Kim'')]) \<in> set (cols demo_frame)
   \<and> (py ''Name'', [Str (repair (artifact_T @ py ''om'')), Str (repair (py ''Kim''))])
        \<in> set (cols demo_loaded)
   \<and> (py ''OldName'', [Str (py ''Q3''), Other (py ''7'')]) \<in> set (cols demo_frame)
   \<and> (py ''DATASET_ID'', [Str (repair (py ''Q3'')), Other (py ''7'')]) \<in> set (cols demo_loaded)
   \<and> find (\<lambda>c. fst c = py ''Image_link'') (cols demo_loaded)
       = Some (py ''Image_link'',
               [Str (repair (image_link (py ''data'') (py_format (Str (py ''Q3''))))),
                Str (repair (image_link (py ''data'') (py_format (Other (py ''7'')))))])
   \<and> clean (py ''Tom'')"
proof -
  note T = repair_replaces_literally [where u = "py ''A''" and v = "py ''om''" and s = "py ''x''"
      and t = "py ''Kim''" and container = "py ''data''" and user_email = alice
      and current_time = demo_now and df = demo_frame and df' = demo_loaded]
  have k: "clean (py ''Kim'')" by code_simp
  have e: "repair (py ''A'') = py ''A''" "repair (py ''om'') = py ''om''" by code_simp+
  have e2: "repair (py ''O'') = py ''O''" "repair (py ''im'') = py ''im''" by code_simp+
  have a1: "repair (py ''A'' @ artifact_T @ py ''om'') = py ''ATom''"
    using T e by (simp add: py_def)
  have a2: "repair (py ''O'' @ artifact_K @ py ''im'') = py ''OKim''"
    using repair_replaces_literally [where u = "py ''O''" and v = "py ''im''"] e2
    by (simp add: py_def)
  have a3: "repair (py ''Kim'') = py ''Kim''" using T k by blast
  have n: "(py ''Name'', [Str (artifact_T @ py ''om''), Str (py ''Kim'')]) \<in> set (cols demo_frame)"
    by (simp add: demo_frame_def)
  have nm: "fst (py ''Name'', [Str (artifact_T @ py ''om''), Str (py ''Kim'')]) \<notin> set managed_labels"
    by (simp add: managed_labels_def py_def)
  have ne: "fst (py ''Name'', [Str (artifact_T @ py ''om''), Str (py ''Kim'')]) \<noteq> py ''OldName''"
    by (simp add: py_def)
  from T demo_normalized have "\<forall>c\<in>set (cols demo_frame). fst c \<notin> set managed_labels \<longrightarrow>
              (if fst c = py ''OldName'' then py ''DATASET_ID'' else fst c,
               map (\<lambda>x. case x of Str y \<Rightarrow> Str (repair y) | Other z \<Rightarrow> Other z) (snd c))
                \<in> set (cols demo_loaded)"
    by blast
  note src = this [rule_format]
  from src [OF n nm] ne
  have a4: "(py ''Name'', [Str (repair (artifact_T @ py ''om'')), Str (repair (py ''Kim''))])
        \<in> set (cols demo_loaded)"
    by simp
  have o: "(py ''OldName'', [Str (py ''Q3''), Other (py ''7'')]) \<in> set (cols demo_frame)"
    by (simp add: demo_frame_def)
  have om: "fst (py ''OldName'', [Str (py ''Q3''), Other (py ''7'')]) \<notin> set managed_labels"
    by (simp add: managed_labels_def py_def)
  from src [OF o om]
  have a5: "(py ''DATASET_ID'', [Str (repair (py ''Q3'')), Other (py ''7'')]) \<in> set (cols demo_loaded)"
    by simp
  from T demo_normalized have "\<forall>c\<in>set (cols demo_frame).
      fst c = py ''OldName'' \<or> fst c = py ''DATASET_ID'' \<longrightarrow>
              find (\<lambda>c. fst c = py ''Image_link'') (cols demo_loaded)
                = Some (py ''Image_link'',
                        map (\<lambda>x. Str (repair (image_link (py ''data'') (py_format x)))) (snd c))"
    by blast
  from this [rule_format, OF o]
  have a6: "find (\<lambda>c. fst c = py ''Image_link'') (cols demo_loaded)
       = Some (py ''Image_link'',
               [Str (repair (image_link (py ''data'') (py_format (Str (py ''Q3''))))),
                Str (repair (image_link (py ''data'') (py_format (Other (py ''7'')))))])"
    by simp
  have m: "(py ''Name'', [Str (py ''Tom''), Str (py ''Kim'')]) \<in> set (cols demo_loaded)"
    by (simp add: demo_loaded_def)
  from T demo_normalized
  have "\<forall>c\<in>set (cols demo_loaded). \<forall>y. Str y \<in> set (snd c) \<longrightarrow> clean y" by blast
  from this [rule_format, OF m, of "py ''Tom''"]
  have a7: "clean (py ''Tom'')" by simp
  from a1 a2 k a3 demo_normalized n a4 o a5 a6 a7 show ?thesis by blast
qed

section \<open>Failures of the image pipeline are handled where they occur\<close>









end
